theory Spec2Isabelle
  imports Main "HOL-Library.Word"
begin

unbundle bit_operations_syntax

section \<open>Python values\<close>

text \<open>
  A Python \<open>str\<close> is a sequence of Unicode code points; the templates of the generators
  hold emoji beyond the Basic Multilingual Plane, so a code point is a \<open>nat\<close> (below
  \<open>0x110000\<close> in Python) and not an 8-bit \<open>char\<close>. \<open>bytes\<close> is a list of 8-bit words.
\<close>

type_synonym pystr = "nat list"
type_synonym byte = "8 word"

definition ascii :: "string \<Rightarrow> pystr" where
  "ascii s = map of_char s"

text \<open>
  The values the generators build and hand to \<open>json.dumps\<close>: \<open>None\<close>, \<open>bool\<close>, \<open>int\<close>,
  \<open>str\<close>, \<open>list\<close> and \<open>dict\<close> with \<open>str\<close> keys. A dict keeps its insertion order, which
  \<open>json.dumps\<close> follows, so it is an association list. Floats do not occur in the
  generators and are not modelled.
\<close>

datatype pyval =
    PNone
  | PBool bool
  | PInt int
  | PStr pystr
  | PList "pyval list"
  | PDict "(pystr \<times> pyval) list"

datatype py_error =
    KeyError pystr
  | TypeError
  | OverflowError
  | UnicodeEncodeError
  | UnicodeDecodeError

section \<open>\<open>json.dumps(event, separators=(',', ':'))\<close>\<close>

text \<open>\<open>sep.join(parts)\<close>.\<close>

fun py_join :: "pystr \<Rightarrow> pystr list \<Rightarrow> pystr" where
  "py_join sep [] = []"
| "py_join sep [x] = x"
| "py_join sep (x # y # ys) = x @ sep @ py_join sep (y # ys)"

definition hex_digit :: "nat \<Rightarrow> nat" where
  "hex_digit d = (if d < 10 then 48 + d else 87 + d)"

text \<open>\<open>'\\u{0:04x}'.format(n)\<close> for \<open>n < 0x10000\<close>.\<close>

definition u_escape :: "nat \<Rightarrow> pystr" where
  "u_escape n = [92, 117, hex_digit (n div 4096 mod 16), hex_digit (n div 256 mod 16),
                 hex_digit (n div 16 mod 16), hex_digit (n mod 16)]"

text \<open>
  One character of \<open>py_encode_basestring_ascii\<close> (\<open>ensure_ascii=True\<close>, the default):
  the backslash, the quote and the characters outside \<open>' '..'~'\<close> are escaped, a code
  point from \<open>0x10000\<close> on as a UTF-16 surrogate pair.
\<close>

definition escape_char :: "nat \<Rightarrow> pystr" where
  "escape_char c =
     (if c = 92 then [92, 92]
      else if c = 34 then [92, 34]
      else if 32 \<le> c \<and> c \<le> 126 then [c]
      else if c = 8 then [92, 98]
      else if c = 12 then [92, 102]
      else if c = 10 then [92, 110]
      else if c = 13 then [92, 114]
      else if c = 9 then [92, 116]
      else if c < 65536 then u_escape c
      else u_escape (55296 + (c - 65536) div 1024 mod 1024) @
           u_escape (56320 + (c - 65536) mod 1024))"

definition py_encode_basestring_ascii :: "pystr \<Rightarrow> pystr" where
  "py_encode_basestring_ascii s = [34] @ concat (map escape_char s) @ [34]"

text \<open>\<open>int.__repr__\<close>: decimal digits, a leading minus sign for a negative number.\<close>

fun nat_repr :: "nat \<Rightarrow> pystr" where
  "nat_repr n = (if n < 10 then [48 + n] else nat_repr (n div 10) @ [48 + n mod 10])"

declare nat_repr.simps [simp del]

definition int_repr :: "int \<Rightarrow> pystr" where
  "int_repr i = (if i < 0 then 45 # nat_repr (nat (- i)) else nat_repr (nat i))"

fun json_dumps :: "pystr \<Rightarrow> pystr \<Rightarrow> pyval \<Rightarrow> pystr" where
  "json_dumps isep ksep PNone = ascii ''null''"
| "json_dumps isep ksep (PBool b) = (if b then ascii ''true'' else ascii ''false'')"
| "json_dumps isep ksep (PInt i) = int_repr i"
| "json_dumps isep ksep (PStr s) = py_encode_basestring_ascii s"
| "json_dumps isep ksep (PList xs) =
     [91] @ py_join isep (map (json_dumps isep ksep) xs) @ [93]"
| "json_dumps isep ksep (PDict kvs) =
     [123] @ py_join isep
        (map (\<lambda>kv. py_encode_basestring_ascii (fst kv) @ ksep @ json_dumps isep ksep (snd kv)) kvs)
     @ [125]"

section \<open>\<open>str.encode('utf-8')\<close> and \<open>bytes.decode('ascii')\<close>\<close>

fun utf8_char :: "nat \<Rightarrow> py_error + byte list" where
  "utf8_char c =
     (if c < 128 then Inr [of_nat c]
      else if c < 2048 then Inr [of_nat (192 + c div 64), of_nat (128 + c mod 64)]
      else if 55296 \<le> c \<and> c < 57344 then Inl UnicodeEncodeError
      else if c < 65536 then
        Inr [of_nat (224 + c div 4096), of_nat (128 + c div 64 mod 64), of_nat (128 + c mod 64)]
      else
        Inr [of_nat (240 + c div 262144), of_nat (128 + c div 4096 mod 64),
             of_nat (128 + c div 64 mod 64), of_nat (128 + c mod 64)])"

fun encode_utf8 :: "pystr \<Rightarrow> py_error + byte list" where
  "encode_utf8 [] = Inr []"
| "encode_utf8 (c # cs) =
     (case utf8_char c of
        Inl e \<Rightarrow> Inl e
      | Inr bs \<Rightarrow> (case encode_utf8 cs of Inl e \<Rightarrow> Inl e | Inr rest \<Rightarrow> Inr (bs @ rest)))"

fun decode_ascii :: "byte list \<Rightarrow> py_error + pystr" where
  "decode_ascii [] = Inr []"
| "decode_ascii (b # bs) =
     (if unat b < 128
      then (case decode_ascii bs of Inl e \<Rightarrow> Inl e | Inr rest \<Rightarrow> Inr (unat b # rest))
      else Inl UnicodeDecodeError)"

section \<open>\<open>gzip.compress\<close>\<close>

text \<open>\<open>zlib.crc32\<close>: the reflected CRC-32 of the gzip trailer, bit by bit.\<close>

definition crc32_bit :: "32 word \<Rightarrow> 32 word" where
  "crc32_bit c = (if bit c 0 then drop_bit 1 c XOR 0xEDB88320 else drop_bit 1 c)"

definition crc32_byte :: "32 word \<Rightarrow> byte \<Rightarrow> 32 word" where
  "crc32_byte c b = (crc32_bit ^^ 8) (c XOR ucast b)"

definition crc32 :: "byte list \<Rightarrow> 32 word" where
  "crc32 bs = foldl crc32_byte 0xFFFFFFFF bs XOR 0xFFFFFFFF"

text \<open>\<open>struct.pack("<L", w)\<close>: four bytes, least significant first.\<close>

definition le32 :: "32 word \<Rightarrow> byte list" where
  "le32 w = [ucast w, ucast (drop_bit 8 w), ucast (drop_bit 16 w), ucast (drop_bit 24 w)]"

text \<open>
  \<open>gzip.compress(data)\<close> with its defaults (\<open>compresslevel=9\<close>, \<open>mtime=None\<close>): a ten-byte
  header (magic \<open>1f 8b\<close>, method 8, no flags, the modification time, \<open>XFL = 2\<close> for the
  best compression, \<open>OS = 255\<close>), the raw deflate stream, and the trailer with the CRC-32
  and the length modulo \<open>2^32\<close> of the uncompressed data.

  Two inputs of the library call are parameters of the model:
  \<^item> \<open>deflate\<close>, zlib's raw deflate compressor at level 9 (library code, not of this
    repository);
  \<^item> \<open>mtime\<close>, the clock: with \<open>mtime=None\<close> the header stores \<open>int(time.time())\<close>, the
    second at which \<open>gzip.compress\<close> runs, as an unsigned 32-bit field.
\<close>

definition gzip_header :: "32 word \<Rightarrow> byte list" where
  "gzip_header mtime = [0x1f, 0x8b, 8, 0] @ le32 mtime @ [2, 255]"

definition gzip_trailer :: "byte list \<Rightarrow> byte list" where
  "gzip_trailer data = le32 (crc32 data) @ le32 (of_nat (length data))"

definition gzip_compress :: "(byte list \<Rightarrow> byte list) \<Rightarrow> 32 word \<Rightarrow> byte list \<Rightarrow> byte list" where
  "gzip_compress deflate mtime data = gzip_header mtime @ deflate data @ gzip_trailer data"

section \<open>\<open>base64.b64encode\<close> and the URL-safe substitution\<close>

definition b64_alphabet :: string where
  "b64_alphabet = ''ABCDEFGHIJKLMNOPQRSTUVWXYZabcdefghijklmnopqrstuvwxyz0123456789+/''"

definition b64_char :: "nat \<Rightarrow> byte" where
  "b64_char n = of_char (b64_alphabet ! n)"

fun b64encode :: "byte list \<Rightarrow> byte list" where
  "b64encode [] = []"
| "b64encode [a] =
     [b64_char (unat a div 4), b64_char (unat a mod 4 * 16), 61, 61]"
| "b64encode [a, b] =
     [b64_char (unat a div 4), b64_char (unat a mod 4 * 16 + unat b div 16),
      b64_char (unat b mod 16 * 4), 61]"
| "b64encode (a # b # c # rest) =
     [b64_char (unat a div 4), b64_char (unat a mod 4 * 16 + unat b div 16),
      b64_char (unat b mod 16 * 4 + unat c div 64), b64_char (unat c mod 64)]
     @ b64encode rest"

text \<open>\<open>s.replace(old, new)\<close> for one-character \<open>old\<close> and \<open>new\<close>, and \<open>s.rstrip(c)\<close>.\<close>

definition replace_char :: "nat \<Rightarrow> nat \<Rightarrow> pystr \<Rightarrow> pystr" where
  "replace_char old new s = map (\<lambda>c. if c = old then new else c) s"

definition rstrip :: "nat \<Rightarrow> pystr \<Rightarrow> pystr" where
  "rstrip c s = rev (dropWhile (\<lambda>x. x = c) (rev s))"

section \<open>\<open>encode_event\<close>\<close>

text \<open>
  The three generators define the same \<open>encode_event\<close>:
  \<^verbatim>\<open>
  json_str = json.dumps(event, separators=(',', ':'))
  compressed = gzip.compress(json_str.encode('utf-8'))
  b64 = base64.b64encode(compressed).decode('ascii')
  url_safe = b64.replace('+', '-').replace('/', '_').rstrip('=')
  return url_safe
  \<close>
\<close>

definition url_safe_of :: "pystr \<Rightarrow> pystr" where
  "url_safe_of b64 = rstrip 61 (replace_char 47 95 (replace_char 43 45 b64))"

definition encode_event ::
  "(byte list \<Rightarrow> byte list) \<Rightarrow> 32 word \<Rightarrow> pyval \<Rightarrow> py_error + pystr" where
  "encode_event deflate mtime event =
     (let json_str = json_dumps (ascii '','') (ascii '':'') event in
      case encode_utf8 json_str of
        Inl e \<Rightarrow> Inl e
      | Inr utf8 \<Rightarrow>
          (let compressed = gzip_compress deflate mtime utf8 in
           case decode_ascii (b64encode compressed) of
             Inl e \<Rightarrow> Inl e
           | Inr b64 \<Rightarrow> Inr (url_safe_of b64)))"

section \<open>Dictionaries, subscripts and iteration\<close>

text \<open>Sequencing of computations that may raise.\<close>

definition and_then :: "'e + 'a \<Rightarrow> ('a \<Rightarrow> 'e + 'b) \<Rightarrow> 'e + 'b" where
  "and_then r f = (case r of Inl e \<Rightarrow> Inl e | Inr x \<Rightarrow> f x)"

text \<open>
  \<open>obj[key]\<close> with a \<open>str\<close> key: a dict looks the key up and raises \<open>KeyError\<close> when it is
  missing; every other value of the model (\<open>None\<close>, numbers, \<open>str\<close>, \<open>list\<close>) raises
  \<open>TypeError\<close>.
\<close>

fun subscript :: "pyval \<Rightarrow> pystr \<Rightarrow> py_error + pyval" where
  "subscript (PDict kvs) k = (case map_of kvs k of None \<Rightarrow> Inl (KeyError k) | Some v \<Rightarrow> Inr v)"
| "subscript _ k = Inl TypeError"

text \<open>
  \<open>d[k] = v\<close>, also the insertion a dict display performs for each of its items: an
  existing key keeps its position and takes the new value, a new key goes last.
\<close>

fun dict_set :: "(pystr \<times> pyval) list \<Rightarrow> pystr \<Rightarrow> pyval \<Rightarrow> (pystr \<times> pyval) list" where
  "dict_set [] k v = [(k, v)]"
| "dict_set ((k', v') # kvs) k v =
     (if k' = k then (k, v) # kvs else (k', v') # dict_set kvs k v)"

definition dict_update ::
  "(pystr \<times> pyval) list \<Rightarrow> (pystr \<times> pyval) list \<Rightarrow> (pystr \<times> pyval) list" where
  "dict_update d items = foldl (\<lambda>acc kv. dict_set acc (fst kv) (snd kv)) d items"

text \<open>
  The items a \<open>for\<close> loop draws from a value: the elements of a list, the keys of a dict,
  the characters of a \<open>str\<close>; the other values are not iterable.
\<close>

fun py_iter :: "pyval \<Rightarrow> py_error + pyval list" where
  "py_iter (PList xs) = Inr xs"
| "py_iter (PDict kvs) = Inr (map (\<lambda>kv. PStr (fst kv)) kvs)"
| "py_iter (PStr s) = Inr (map (\<lambda>c. PStr [c]) s)"
| "py_iter _ = Inl TypeError"

section \<open>\<open>datetime\<close> and \<open>timedelta\<close>\<close>

text \<open>
  A \<open>datetime\<close> in UTC is the number of microseconds since \<open>0001-01-01T00:00:00\<close>; Python
  accepts the years 1 to 9999, that is the day ordinals \<open>1\<close> to \<open>3652059\<close>. A \<open>timedelta\<close>
  is a number of microseconds whose whole days have a magnitude of at most \<open>999999999\<close>.
  Both constructors and the addition raise \<open>OverflowError\<close> outside these ranges.
\<close>

type_synonym datetime = int

definition us_per_day :: int where
  "us_per_day = 86400000000"

definition MAXORDINAL :: int where
  "MAXORDINAL = 3652059"

definition timedelta_us :: "int \<Rightarrow> py_error + int" where
  "timedelta_us us =
     (if \<bar>us div us_per_day\<bar> > 999999999 then Inl OverflowError else Inr us)"

text \<open>
  \<open>timedelta(minutes=m)\<close> and \<open>timedelta(seconds=s)\<close>. The argument is a number; \<open>bool\<close> is
  a subclass of \<open>int\<close> in Python, every other value of the model raises \<open>TypeError\<close>.
\<close>

fun py_number :: "pyval \<Rightarrow> py_error + int" where
  "py_number (PInt i) = Inr i"
| "py_number (PBool b) = Inr (if b then 1 else 0)"
| "py_number _ = Inl TypeError"

definition timedelta_minutes :: "int \<Rightarrow> py_error + int" where
  "timedelta_minutes m = timedelta_us (m * 60000000)"

definition timedelta_seconds :: "pyval \<Rightarrow> py_error + int" where
  "timedelta_seconds v = and_then (py_number v) (\<lambda>s. timedelta_us (s * 1000000))"

definition datetime_valid :: "datetime \<Rightarrow> bool" where
  "datetime_valid dt = (0 \<le> dt \<and> dt div us_per_day < MAXORDINAL)"

definition datetime_add :: "datetime \<Rightarrow> int \<Rightarrow> py_error + datetime" where
  "datetime_add dt td = (if datetime_valid (dt + td) then Inr (dt + td) else Inl OverflowError)"

text \<open>
  The proleptic Gregorian calendar of \<open>datetime\<close>: \<open>_ord2ymd\<close> turns a day ordinal
  (\<open>1\<close> is 0001-01-01) into year, month and day.
\<close>

definition days_before_month :: "int \<Rightarrow> int" where
  "days_before_month m =
     (if m = 1 then 0 else if m = 2 then 31 else if m = 3 then 59 else if m = 4 then 90
      else if m = 5 then 120 else if m = 6 then 151 else if m = 7 then 181
      else if m = 8 then 212 else if m = 9 then 243 else if m = 10 then 273
      else if m = 11 then 304 else 334)"

definition days_in_month :: "int \<Rightarrow> int" where
  "days_in_month m =
     (if m = 2 then 28 else if m = 4 \<or> m = 6 \<or> m = 9 \<or> m = 11 then 30 else 31)"

definition ord2ymd :: "int \<Rightarrow> int \<times> int \<times> int" where
  "ord2ymd ordinal =
     (let n = ordinal - 1;
          n400 = n div 146097; r400 = n mod 146097;
          n100 = r400 div 36524; r100 = r400 mod 36524;
          n4 = r100 div 1461; r4 = r100 mod 1461;
          n1 = r4 div 365; r1 = r4 mod 365;
          year = n400 * 400 + 1 + n100 * 100 + n4 * 4 + n1
      in if n1 = 4 \<or> n100 = 4 then (year - 1, 12, 31)
         else
           (let leapyear = (n1 = 3 \<and> (n4 \<noteq> 24 \<or> n100 = 3));
                month = (r1 + 50) div 32;
                preceding = days_before_month month + (if month > 2 \<and> leapyear then 1 else 0)
            in if preceding > r1
               then (year, month - 1,
                     r1 - (preceding - (days_in_month (month - 1)
                                          + (if month - 1 = 2 \<and> leapyear then 1 else 0))) + 1)
               else (year, month, r1 - preceding + 1)))"

text \<open>\<open>'%02d'\<close>, for the non-negative values of a date and a time of day.\<close>

definition pad2 :: "int \<Rightarrow> pystr" where
  "pad2 n = [48 + nat (n div 10 mod 10), 48 + nat (n mod 10)]"

text \<open>
  \<open>dt.strftime("%Y-%m-%dT%H:%M:%SZ")\<close>: the microseconds are dropped. \<open>strftime\<close> hands
  the format to the C library; \<open>%Y\<close> is the year in decimal as glibc prints it, without
  padding, so that a year below 1000 has fewer than four digits
  (\<open>'999-12-09T01:54:56Z'\<close>). The month, the day and the time of day have two digits.
\<close>

definition strftime_iso :: "datetime \<Rightarrow> pystr" where
  "strftime_iso dt =
     (let secs = dt mod us_per_day div 1000000;
          ymd = ord2ymd (dt div us_per_day + 1)
      in int_repr (fst ymd) @ [45] @ pad2 (fst (snd ymd)) @ [45] @ pad2 (snd (snd ymd)) @ [84]
         @ pad2 (secs div 3600) @ [58] @ pad2 (secs div 60 mod 60) @ [58] @ pad2 (secs mod 60)
         @ [90])"

section \<open>The builders\<close>

text \<open>
  \<open>generate_event\<close> of \<open>generate-conductor-qr.py\<close>:
  \<^verbatim>\<open>
  template = EVENTS[template_name]
  now = datetime.now(timezone.utc)
  start_time = now + timedelta(minutes=start_minutes_from_now)
  actions = []
  for i, action_template in enumerate(template["actions"]):
      action_time = start_time + timedelta(seconds=action_template["relativeTime"])
      action = {
          "id": f"action-{i+1}",
          "time": action_time.strftime("%Y-%m-%dT%H:%M:%SZ"),
          "action": action_template["action"],
          "audioAnnounce": True,
          "announceActionName": True,
          **{k: v for k, v in action_template.items() if k not in ["action"]}
      }
      actions.append(action)
  event = {"title": template["title"], "description": template["description"],
           "startTime": start_time.strftime("%Y-%m-%dT%H:%M:%SZ"),
           "timezone": "America/Denver", "timeline": actions}
  return event
  \<close>
  The module's table \<open>EVENTS\<close> and the clock reading \<open>now\<close> are arguments of the model.
\<close>

definition action_id :: "nat \<Rightarrow> pystr" where
  "action_id i = ascii ''action-'' @ int_repr (int i + 1)"

text \<open>The items of \<open>action_template.items()\<close> that the dict display spreads.\<close>

fun template_items :: "pyval \<Rightarrow> (pystr \<times> pyval) list" where
  "template_items (PDict kvs) = filter (\<lambda>kv. fst kv \<noteq> ascii ''action'') kvs"
| "template_items _ = []"

definition build_action :: "datetime \<Rightarrow> nat \<Rightarrow> pyval \<Rightarrow> py_error + pyval" where
  "build_action start_time i action_template =
     and_then (subscript action_template (ascii ''relativeTime'')) (\<lambda>rel.
     and_then (timedelta_seconds rel) (\<lambda>td.
     and_then (datetime_add start_time td) (\<lambda>action_time.
     and_then (subscript action_template (ascii ''action'')) (\<lambda>text.
       Inr (PDict (dict_update
         [(ascii ''id'', PStr (action_id i)),
          (ascii ''time'', PStr (strftime_iso action_time)),
          (ascii ''action'', text),
          (ascii ''audioAnnounce'', PBool True),
          (ascii ''announceActionName'', PBool True)]
         (template_items action_template)))))))"

fun build_actions :: "datetime \<Rightarrow> nat \<Rightarrow> pyval list \<Rightarrow> py_error + pyval list" where
  "build_actions start_time i [] = Inr []"
| "build_actions start_time i (action_template # rest) =
     and_then (build_action start_time i action_template) (\<lambda>action.
     and_then (build_actions start_time (Suc i) rest) (\<lambda>actions.
       Inr (action # actions)))"

definition generate_event ::
  "(pystr \<times> pyval) list \<Rightarrow> datetime \<Rightarrow> pystr \<Rightarrow> int \<Rightarrow> py_error + pyval" where
  "generate_event events now template_name start_minutes_from_now =
     and_then (subscript (PDict events) template_name) (\<lambda>template.
     and_then (timedelta_minutes start_minutes_from_now) (\<lambda>td.
     and_then (datetime_add now td) (\<lambda>start_time.
     and_then (subscript template (ascii ''actions'')) (\<lambda>action_templates.
     and_then (py_iter action_templates) (\<lambda>items.
     and_then (build_actions start_time 0 items) (\<lambda>actions.
     and_then (subscript template (ascii ''title'')) (\<lambda>title.
     and_then (subscript template (ascii ''description'')) (\<lambda>description.
       Inr (PDict
         [(ascii ''title'', title),
          (ascii ''description'', description),
          (ascii ''startTime'', PStr (strftime_iso start_time)),
          (ascii ''timezone'', PStr (ascii ''America/Denver'')),
          (ascii ''timeline'', PList actions)])))))))))"

text \<open>The table \<open>EVENTS\<close> of \<open>generate-conductor-qr.py\<close>.\<close>

definition EVENTS :: "(pystr \<times> pyval) list" where
  "EVENTS =
     [(ascii ''inaugural'', PDict
         [(ascii ''title'', PStr (ascii ''Pantheon Inaugural'')),
          (ascii ''description'', PStr (ascii ''Your AI assistants present: a demonstration of synchronized coordination.'')),
          (ascii ''actions'', PList
             [PDict
                [(ascii ''relativeTime'', PInt 0),
                 (ascii ''action'', PStr (ascii ''Take a deep breath. The Pantheon is online.'')),
                 (ascii ''color'', PStr (ascii ''#9C27B0'')),
                 (ascii ''icon'', PStr ([127963, 65039])),
                 (ascii ''style'', PStr (ascii ''emphasis'')),
                 (ascii ''hapticPattern'', PStr (ascii ''single'')),
                 (ascii ''noticeSeconds'', PInt 15),
                 (ascii ''countdownSeconds'', PList [PInt 10, PInt 5, PInt 3, PInt 2, PInt 1])],
              PDict
                [(ascii ''relativeTime'', PInt 20),
                 (ascii ''action'', PStr (ascii ''Raise your phone like a torch. You are the conductor now.'')),
                 (ascii ''color'', PStr (ascii ''#FF9800'')),
                 (ascii ''icon'', PStr ([128293])),
                 (ascii ''style'', PStr (ascii ''emphasis'')),
                 (ascii ''hapticPattern'', PStr (ascii ''double'')),
                 (ascii ''noticeSeconds'', PInt 10),
                 (ascii ''countdownSeconds'', PList [PInt 5, PInt 3, PInt 2, PInt 1])],
              PDict
                [(ascii ''relativeTime'', PInt 40),
                 (ascii ''action'', PStr (ascii ''Look left, then right. You'' @ [39] @ ascii ''re part of something bigger.'')),
                 (ascii ''color'', PStr (ascii ''#2196F3'')),
                 (ascii ''icon'', PStr ([128064])),
                 (ascii ''style'', PStr (ascii ''normal'')),
                 (ascii ''hapticPattern'', PStr (ascii ''single'')),
                 (ascii ''noticeSeconds'', PInt 10),
                 (ascii ''countdownSeconds'', PList [PInt 5, PInt 3, PInt 2, PInt 1])],
              PDict
                [(ascii ''relativeTime'', PInt 60),
                 (ascii ''action'', PStr (ascii ''Clap once. The signal has been sent.'')),
                 (ascii ''color'', PStr (ascii ''#4CAF50'')),
                 (ascii ''icon'', PStr ([128079])),
                 (ascii ''style'', PStr (ascii ''alert'')),
                 (ascii ''hapticPattern'', PStr (ascii ''triple'')),
                 (ascii ''noticeSeconds'', PInt 10),
                 (ascii ''countdownSeconds'', PList [PInt 5, PInt 3, PInt 2, PInt 1])],
              PDict
                [(ascii ''relativeTime'', PInt 80),
                 (ascii ''action'', PStr (ascii ''Final pose: arms crossed, slight nod. Test complete.'')),
                 (ascii ''color'', PStr (ascii ''#E91E63'')),
                 (ascii ''icon'', PStr ([10024])),
                 (ascii ''style'', PStr (ascii ''emphasis'')),
                 (ascii ''hapticPattern'', PStr (ascii ''double'')),
                 (ascii ''noticeSeconds'', PInt 10),
                 (ascii ''countdownSeconds'', PList [PInt 5, PInt 3, PInt 2, PInt 1])]])]),
      (ascii ''diagnostic'', PDict
         [(ascii ''title'', PStr (ascii ''Pantheon Node Initialization'')),
          (ascii ''description'', PStr (ascii ''System diagnostic and welcome sequence for Conductor mobile node.'')),
          (ascii ''actions'', PList
             [PDict
                [(ascii ''relativeTime'', PInt 0),
                 (ascii ''action'', PStr (ascii ''System Link Established'')),
                 (ascii ''color'', PStr (ascii ''#4CAF50'')),
                 (ascii ''icon'', PStr ([128279])),
                 (ascii ''style'', PStr (ascii ''normal'')),
                 (ascii ''hapticPattern'', PStr (ascii ''single'')),
                 (ascii ''noticeSeconds'', PInt 10),
                 (ascii ''countdownSeconds'', PList [PInt 5, PInt 3, PInt 2, PInt 1])],
              PDict
                [(ascii ''relativeTime'', PInt 30),
                 (ascii ''action'', PStr (ascii ''Audio Channel Diagnostic'')),
                 (ascii ''color'', PStr (ascii ''#2196F3'')),
                 (ascii ''icon'', PStr ([128266])),
                 (ascii ''style'', PStr (ascii ''emphasis'')),
                 (ascii ''hapticPattern'', PStr (ascii ''double'')),
                 (ascii ''noticeSeconds'', PInt 5),
                 (ascii ''countdownSeconds'', PList [PInt 3, PInt 2, PInt 1])],
              PDict
                [(ascii ''relativeTime'', PInt 60),
                 (ascii ''action'', PStr (ascii ''Haptic Array Stress Test'')),
                 (ascii ''color'', PStr (ascii ''#FF9800'')),
                 (ascii ''icon'', PStr ([128243])),
                 (ascii ''style'', PStr (ascii ''alert'')),
                 (ascii ''hapticPattern'', PStr (ascii ''triple'')),
                 (ascii ''noticeSeconds'', PInt 5),
                 (ascii ''countdownSeconds'', PList [PInt 3, PInt 2, PInt 1])],
              PDict
                [(ascii ''relativeTime'', PInt 90),
                 (ascii ''action'', PStr (ascii ''Visual Synchronization'')),
                 (ascii ''color'', PStr (ascii ''#F44336'')),
                 (ascii ''icon'', PStr ([128065, 65039])),
                 (ascii ''style'', PStr (ascii ''emphasis'')),
                 (ascii ''hapticPattern'', PStr (ascii ''triple'')),
                 (ascii ''noticeSeconds'', PInt 5),
                 (ascii ''countdownSeconds'', PList [PInt 3, PInt 2, PInt 1])],
              PDict
                [(ascii ''relativeTime'', PInt 120),
                 (ascii ''action'', PStr (ascii ''Welcome to the Network, Operator.'')),
                 (ascii ''color'', PStr (ascii ''#9C27B0'')),
                 (ascii ''icon'', PStr ([127963, 65039])),
                 (ascii ''style'', PStr (ascii ''emphasis'')),
                 (ascii ''hapticPattern'', PStr (ascii ''double'')),
                 (ascii ''noticeSeconds'', PInt 10),
                 (ascii ''countdownSeconds'', PList [PInt 5, PInt 4, PInt 3, PInt 2, PInt 1])],
              PDict
                [(ascii ''relativeTime'', PInt 150),
                 (ascii ''action'', PStr (ascii ''Entering Standby Mode'')),
                 (ascii ''color'', PStr (ascii ''#607D8B'')),
                 (ascii ''icon'', PStr ([128164])),
                 (ascii ''style'', PStr (ascii ''normal'')),
                 (ascii ''hapticPattern'', PStr (ascii ''single'')),
                 (ascii ''noticeSeconds'', PInt 5),
                 (ascii ''countdownSeconds'', PList [PInt 3, PInt 2, PInt 1])]])])]"

text \<open>
  \<open>generate_test_event\<close> of \<open>generate-test-event.py\<close>: six fixed actions, one every
  \<open>action_interval_seconds\<close>.
  \<^verbatim>\<open>
  for i, (text, style) in enumerate(action_texts):
      action_time = start_time + timedelta(seconds=i * action_interval_seconds)
      actions.append({
          "id": f"action-{i+1}",
          "time": action_time.strftime("%Y-%m-%dT%H:%M:%SZ"),
          "action": text, "audioAnnounce": True, "announceActionName": True,
          "style": style,
          "hapticPattern": "double" if style == "normal" else "triple"})
  \<close>
\<close>

definition action_texts :: "(pystr \<times> pystr) list" where
  "action_texts =
     [(ascii ''Raise hand'', ascii ''emphasis''),
      (ascii ''Wave slowly'', ascii ''normal''),
      (ascii ''Clap once'', ascii ''alert''),
      (ascii ''Turn around'', ascii ''normal''),
      (ascii ''Take a step forward'', ascii ''normal''),
      (ascii ''Final pose'', ascii ''emphasis'')]"

definition test_action :: "datetime \<Rightarrow> int \<Rightarrow> nat \<Rightarrow> pystr \<times> pystr \<Rightarrow> py_error + pyval" where
  "test_action start_time action_interval_seconds i ts =
     and_then (timedelta_us (int i * action_interval_seconds * 1000000)) (\<lambda>td.
     and_then (datetime_add start_time td) (\<lambda>action_time.
       Inr (PDict
         [(ascii ''id'', PStr (action_id i)),
          (ascii ''time'', PStr (strftime_iso action_time)),
          (ascii ''action'', PStr (fst ts)),
          (ascii ''audioAnnounce'', PBool True),
          (ascii ''announceActionName'', PBool True),
          (ascii ''style'', PStr (snd ts)),
          (ascii ''hapticPattern'',
             PStr (if snd ts = ascii ''normal'' then ascii ''double'' else ascii ''triple''))])))"

fun test_actions ::
  "datetime \<Rightarrow> int \<Rightarrow> nat \<Rightarrow> (pystr \<times> pystr) list \<Rightarrow> py_error + pyval list" where
  "test_actions start_time interval i [] = Inr []"
| "test_actions start_time interval i (ts # rest) =
     and_then (test_action start_time interval i ts) (\<lambda>action.
     and_then (test_actions start_time interval (Suc i) rest) (\<lambda>actions.
       Inr (action # actions)))"

definition generate_test_event :: "datetime \<Rightarrow> int \<Rightarrow> int \<Rightarrow> py_error + pyval" where
  "generate_test_event now start_minutes_from_now action_interval_seconds =
     and_then (timedelta_minutes start_minutes_from_now) (\<lambda>td.
     and_then (datetime_add now td) (\<lambda>start_time.
     and_then (test_actions start_time action_interval_seconds 0 action_texts) (\<lambda>actions.
       Inr (PDict
         [(ascii ''title'', PStr (ascii ''Test Flash Mob'')),
          (ascii ''description'', PStr (ascii ''A test event for Conductor Mobile development'')),
          (ascii ''startTime'', PStr (strftime_iso start_time)),
          (ascii ''timezone'', PStr (ascii ''America/New_York'')),
          (ascii ''timeline'', PList actions)]))))"

text \<open>
  \<open>generate_pantheon_event\<close> of \<open>generate-pantheon-qr.py\<close>: the actions are written out
  with their ids and relative times, and the loop stores the absolute time into each:
  \<^verbatim>\<open>
  for action in actions:
      action_time = start_time + timedelta(seconds=action["relativeTime"])
      action["time"] = action_time.strftime("%Y-%m-%dT%H:%M:%SZ")
  \<close>
\<close>

definition pantheon_actions :: "pyval list" where
  "pantheon_actions =
     [PDict
        [(ascii ''id'', PStr (ascii ''action-1'')),
         (ascii ''relativeTime'', PInt 0),
         (ascii ''action'', PStr (ascii ''Take a deep breath. The Pantheon is online.'')),
         (ascii ''audioAnnounce'', PBool True),
         (ascii ''noticeSeconds'', PInt 15),
         (ascii ''countdownSeconds'', PList [PInt 10, PInt 5, PInt 3, PInt 2, PInt 1]),
         (ascii ''announceActionName'', PBool True),
         (ascii ''color'', PStr (ascii ''#9C27B0'')),
         (ascii ''icon'', PStr ([127963, 65039])),
         (ascii ''style'', PStr (ascii ''emphasis'')),
         (ascii ''hapticPattern'', PStr (ascii ''single''))],
      PDict
        [(ascii ''id'', PStr (ascii ''action-2'')),
         (ascii ''relativeTime'', PInt 20),
         (ascii ''action'', PStr (ascii ''Raise your phone like a torch. You are the conductor now.'')),
         (ascii ''audioAnnounce'', PBool True),
         (ascii ''noticeSeconds'', PInt 10),
         (ascii ''countdownSeconds'', PList [PInt 5, PInt 3, PInt 2, PInt 1]),
         (ascii ''announceActionName'', PBool True),
         (ascii ''color'', PStr (ascii ''#FF9800'')),
         (ascii ''icon'', PStr ([128293])),
         (ascii ''style'', PStr (ascii ''emphasis'')),
         (ascii ''hapticPattern'', PStr (ascii ''double''))],
      PDict
        [(ascii ''id'', PStr (ascii ''action-3'')),
         (ascii ''relativeTime'', PInt 40),
         (ascii ''action'', PStr (ascii ''Look left, then right. You'' @ [39] @ ascii ''re part of something bigger.'')),
         (ascii ''audioAnnounce'', PBool True),
         (ascii ''noticeSeconds'', PInt 10),
         (ascii ''countdownSeconds'', PList [PInt 5, PInt 3, PInt 2, PInt 1]),
         (ascii ''announceActionName'', PBool True),
         (ascii ''color'', PStr (ascii ''#2196F3'')),
         (ascii ''icon'', PStr ([128064])),
         (ascii ''style'', PStr (ascii ''normal'')),
         (ascii ''hapticPattern'', PStr (ascii ''single''))],
      PDict
        [(ascii ''id'', PStr (ascii ''action-4'')),
         (ascii ''relativeTime'', PInt 60),
         (ascii ''action'', PStr (ascii ''Clap once. The signal has been sent.'')),
         (ascii ''audioAnnounce'', PBool True),
         (ascii ''noticeSeconds'', PInt 10),
         (ascii ''countdownSeconds'', PList [PInt 5, PInt 3, PInt 2, PInt 1]),
         (ascii ''announceActionName'', PBool True),
         (ascii ''color'', PStr (ascii ''#4CAF50'')),
         (ascii ''icon'', PStr ([128079])),
         (ascii ''style'', PStr (ascii ''alert'')),
         (ascii ''hapticPattern'', PStr (ascii ''triple''))],
      PDict
        [(ascii ''id'', PStr (ascii ''action-5'')),
         (ascii ''relativeTime'', PInt 80),
         (ascii ''action'', PStr (ascii ''Final pose: arms crossed, slight nod. Test complete.'')),
         (ascii ''audioAnnounce'', PBool True),
         (ascii ''noticeSeconds'', PInt 10),
         (ascii ''countdownSeconds'', PList [PInt 5, PInt 3, PInt 2, PInt 1]),
         (ascii ''announceActionName'', PBool True),
         (ascii ''color'', PStr (ascii ''#E91E63'')),
         (ascii ''icon'', PStr ([10024])),
         (ascii ''style'', PStr (ascii ''emphasis'')),
         (ascii ''hapticPattern'', PStr (ascii ''double''))]]"

definition set_action_time :: "datetime \<Rightarrow> pyval \<Rightarrow> py_error + pyval" where
  "set_action_time start_time action =
     and_then (subscript action (ascii ''relativeTime'')) (\<lambda>rel.
     and_then (timedelta_seconds rel) (\<lambda>td.
     and_then (datetime_add start_time td) (\<lambda>action_time.
       (case action of
          PDict kvs \<Rightarrow> Inr (PDict (dict_set kvs (ascii ''time'') (PStr (strftime_iso action_time))))
        | _ \<Rightarrow> Inl TypeError))))"

fun set_action_times :: "datetime \<Rightarrow> pyval list \<Rightarrow> py_error + pyval list" where
  "set_action_times start_time [] = Inr []"
| "set_action_times start_time (action # rest) =
     and_then (set_action_time start_time action) (\<lambda>a.
     and_then (set_action_times start_time rest) (\<lambda>as. Inr (a # as)))"

definition generate_pantheon_event :: "datetime \<Rightarrow> int \<Rightarrow> py_error + pyval" where
  "generate_pantheon_event now start_minutes_from_now =
     and_then (timedelta_minutes start_minutes_from_now) (\<lambda>td.
     and_then (datetime_add now td) (\<lambda>start_time.
     and_then (set_action_times start_time pantheon_actions) (\<lambda>actions.
       Inr (PDict
         [(ascii ''title'', PStr (ascii ''Pantheon Inaugural'')),
          (ascii ''description'',
             PStr (ascii ''Your AI assistants present: a demonstration of synchronized coordination.'')),
          (ascii ''startTime'', PStr (strftime_iso start_time)),
          (ascii ''timezone'', PStr (ascii ''America/Denver'')),
          (ascii ''timeline'', PList actions)]))))"

section \<open>Decimal digits\<close>

text \<open>A decimal digit, and the number that a sequence of decimal digits denotes.\<close>

definition is_digit :: "nat \<Rightarrow> bool" where
  "is_digit c = (48 \<le> c \<and> c \<le> 57)"

definition digit_val :: "nat \<Rightarrow> int" where
  "digit_val c = int c - 48"

definition read_digits :: "pystr \<Rightarrow> int" where
  "read_digits s = foldl (\<lambda>acc c. acc * 10 + digit_val c) 0 s"


text \<open>The shape \<open>YYYY-MM-DDTHH:MM:SSZ\<close> of a timestamp.\<close>

definition is_timestamp :: "pystr \<Rightarrow> bool" where
  "is_timestamp s =
     (length s = 20
      \<and> list_all (\<lambda>i. is_digit (s ! i)) [0, 1, 2, 3, 5, 6, 8, 9, 11, 12, 14, 15, 17, 18]
      \<and> s ! 4 = 45 \<and> s ! 7 = 45 \<and> s ! 10 = 84 \<and> s ! 13 = 58 \<and> s ! 16 = 58 \<and> s ! 19 = 90)"


section \<open>The decoder\<close>

text \<open>
  The repository holds the generators only: no file under its sources decodes a token (the
  mobile client does). The decoder below follows section 4.2 of the specification step by
  step; each of its definitions is marked as modelled from the specification.
\<close>

datatype decode_error = CorruptPayloadError | SchemaError pystr

text \<open>
  Modelled from the spec: the decoder's first step, which the repository lacks: "Re-insert
  padding characters as needed (pad length = (4 - len(token) % 4) % 4 trailing =), undo the
  character substitutions, base64-decode."
\<close>

definition add_padding :: "pystr \<Rightarrow> pystr" where
  "add_padding tok = tok @ replicate ((4 - length tok mod 4) mod 4) 61"

text \<open>Modelled from the spec: the substitutions \<open>+\<close> to \<open>-\<close> and \<open>/\<close> to \<open>_\<close> undone (decoder, absent).\<close>

definition undo_url_safe :: "pystr \<Rightarrow> pystr" where
  "undo_url_safe s = replace_char 95 47 (replace_char 45 43 s)"

text \<open>
  Modelled from the spec: base64 decoding (decoder, absent): the value of a character of the
  standard alphabet, a group of four characters (the last group may end in one or two
  padding characters), and the text as a sequence of such groups.
\<close>

definition b64_index :: "nat \<Rightarrow> nat option" where
  "b64_index c =
     (if 65 \<le> c \<and> c \<le> 90 then Some (c - 65)
      else if 97 \<le> c \<and> c \<le> 122 then Some (c - 71)
      else if 48 \<le> c \<and> c \<le> 57 then Some (c + 4)
      else if c = 43 then Some 62
      else if c = 47 then Some 63
      else None)"

text \<open>Modelled from the spec: one group of four base64 characters (decoder, absent).\<close>

definition b64_group :: "nat \<Rightarrow> nat \<Rightarrow> nat \<Rightarrow> nat \<Rightarrow> byte list option" where
  "b64_group a b c d =
     (case b64_index a of None \<Rightarrow> None | Some x \<Rightarrow>
      case b64_index b of None \<Rightarrow> None | Some y \<Rightarrow>
        if c = 61 \<and> d = 61 then Some [of_nat (x * 4 + y div 16)]
        else (case b64_index c of None \<Rightarrow> None | Some z \<Rightarrow>
          if d = 61 then Some [of_nat (x * 4 + y div 16), of_nat (y mod 16 * 16 + z div 4)]
          else (case b64_index d of None \<Rightarrow> None | Some w \<Rightarrow>
            Some [of_nat (x * 4 + y div 16), of_nat (y mod 16 * 16 + z div 4),
                  of_nat (z mod 4 * 64 + w)])))"

text \<open>Modelled from the spec: base64 decoding of a padded text (decoder, absent).\<close>

fun b64decode :: "pystr \<Rightarrow> byte list option" where
  "b64decode [] = Some []"
| "b64decode (a # b # c # d # rest) =
     (case b64_group a b c d of
        None \<Rightarrow> None
      | Some bs \<Rightarrow>
          if length bs < 3 \<and> rest \<noteq> [] then None
          else (case b64decode rest of None \<Rightarrow> None | Some r \<Rightarrow> Some (bs @ r)))"
| "b64decode _ = None"

text \<open>
  Modelled from the spec: the decoder's second step (decoder, absent): "Decompress the byte
  stream". A gzip member is the ten-byte header (without optional fields, as the encoder
  writes it), the deflate stream and the trailer with the CRC-32 and the length of the data.
  \<open>inflate\<close>, the inverse of the library's \<open>deflate\<close>, is a parameter: it returns the data
  and the bytes that follow the deflate stream.
\<close>

definition gzip_decompress ::
  "(byte list \<Rightarrow> (byte list \<times> byte list) option) \<Rightarrow> byte list \<Rightarrow> byte list option" where
  "gzip_decompress inflate bs =
     (if length bs < 10 \<or> take 4 bs \<noteq> [0x1f, 0x8b, 8, 0] then None
      else (case inflate (drop 10 bs) of
              None \<Rightarrow> None
            | Some (data, trailer) \<Rightarrow> if trailer = gzip_trailer data then Some data else None))"

text \<open>
  Modelled from the spec: the decoder's third step (decoder, absent), "Parse the textual
  form". The text is the compact or spaced JSON text of RFC 8259 over ASCII, without
  fractions and exponents; every function takes fuel, and the length of the text is enough.
\<close>

definition hex_val :: "nat \<Rightarrow> nat option" where
  "hex_val h =
     (if 48 \<le> h \<and> h \<le> 57 then Some (h - 48)
      else if 97 \<le> h \<and> h \<le> 102 then Some (h - 87)
      else if 65 \<le> h \<and> h \<le> 70 then Some (h - 55)
      else None)"

text \<open>Modelled from the spec: the four hexadecimal digits of a \<open>\\u\<close> escape (decoder, absent).\<close>

definition read_hex4 :: "pystr \<Rightarrow> (nat \<times> pystr) option" where
  "read_hex4 s =
     (case s of
        h3 # h2 # h1 # h0 # rest \<Rightarrow>
          (case (hex_val h3, hex_val h2, hex_val h1, hex_val h0) of
             (Some d3, Some d2, Some d1, Some d0) \<Rightarrow>
               Some (((d3 * 16 + d2) * 16 + d1) * 16 + d0, rest)
           | _ \<Rightarrow> None)
      | _ \<Rightarrow> None)"

text \<open>Modelled from the spec: the character of a two-character escape (decoder, absent).\<close>

definition simple_escape :: "nat \<Rightarrow> nat option" where
  "simple_escape e =
     (if e = 34 \<or> e = 92 \<or> e = 47 then Some e
      else if e = 98 then Some 8
      else if e = 102 then Some 12
      else if e = 110 then Some 10
      else if e = 114 then Some 13
      else if e = 116 then Some 9
      else None)"

text \<open>
  Modelled from the spec: a JSON string after its opening quote (decoder, absent). A high
  surrogate followed by the escape of a low surrogate is one code point.
\<close>

fun parse_str :: "nat \<Rightarrow> pystr \<Rightarrow> (pystr \<times> pystr) option" where
  "parse_str 0 s = None"
| "parse_str (Suc n) [] = None"
| "parse_str (Suc n) (c # cs) =
     (if c = 34 then Some ([], cs)
      else if c = 92 then
        (case cs of
           [] \<Rightarrow> None
         | e # cs' \<Rightarrow>
             if e = 117 then
               (case read_hex4 cs' of
                  None \<Rightarrow> None
                | Some (u, cs2) \<Rightarrow>
                    (case (if 55296 \<le> u \<and> u < 56320 \<and> take 2 cs2 = [92, 117]
                           then read_hex4 (drop 2 cs2) else None) of
                       Some (l, cs3) \<Rightarrow>
                         if 56320 \<le> l \<and> l < 57344 then
                           (case parse_str n cs3 of
                              None \<Rightarrow> None
                            | Some (s, r) \<Rightarrow>
                                Some ((65536 + (u - 55296) * 1024 + (l - 56320)) # s, r))
                         else (case parse_str n cs2 of
                                 None \<Rightarrow> None | Some (s, r) \<Rightarrow> Some (u # s, r))
                     | None \<Rightarrow>
                         (case parse_str n cs2 of
                            None \<Rightarrow> None | Some (s, r) \<Rightarrow> Some (u # s, r))))
             else (case simple_escape e of
                     None \<Rightarrow> None
                   | Some x \<Rightarrow>
                       (case parse_str n cs' of
                          None \<Rightarrow> None | Some (s, r) \<Rightarrow> Some (x # s, r))))
      else if 32 \<le> c \<and> c \<le> 126 then
        (case parse_str n cs of None \<Rightarrow> None | Some (s, r) \<Rightarrow> Some (c # s, r))
      else None)"

text \<open>Modelled from the spec: a JSON integer, \<open>-\<close>? then \<open>0\<close> or digits without a leading zero (decoder, absent).\<close>

definition parse_nat :: "pystr \<Rightarrow> (int \<times> pystr) option" where
  "parse_nat s =
     (let ds = takeWhile is_digit s
      in if ds = [] \<or> (1 < length ds \<and> hd ds = 48) then None
         else Some (read_digits ds, dropWhile is_digit s))"

definition parse_int :: "pystr \<Rightarrow> (int \<times> pystr) option" where
  "parse_int s =
     (case s of
        [] \<Rightarrow> None
      | c # cs \<Rightarrow>
          if c = 45 then (case parse_nat cs of None \<Rightarrow> None | Some (i, r) \<Rightarrow> Some (- i, r))
          else parse_nat s)"

text \<open>Modelled from the spec: insignificant whitespace between the tokens is skipped (decoder, absent).\<close>

definition skip_ws :: "pystr \<Rightarrow> pystr" where
  "skip_ws s = dropWhile (\<lambda>c. c = 32 \<or> c = 9 \<or> c = 10 \<or> c = 13) s"

text \<open>
  Modelled from the spec: a JSON value, the elements of an array after \<open>[\<close> and the members of
  an object after \<open>{\<close> (decoder, absent).
\<close>

fun parse_value :: "nat \<Rightarrow> pystr \<Rightarrow> (pyval \<times> pystr) option"
  and parse_elems :: "nat \<Rightarrow> pystr \<Rightarrow> (pyval list \<times> pystr) option"
  and parse_members :: "nat \<Rightarrow> pystr \<Rightarrow> ((pystr \<times> pyval) list \<times> pystr) option" where
  "parse_value 0 s = None"
| "parse_value (Suc n) s =
     (case skip_ws s of
        [] \<Rightarrow> None
      | c # cs \<Rightarrow>
          if c = 34 then
            (case parse_str (Suc (length cs)) cs of
               None \<Rightarrow> None | Some (str, r) \<Rightarrow> Some (PStr str, r))
          else if c = 91 then
            (case skip_ws cs of
               [] \<Rightarrow> None
             | c' # r \<Rightarrow>
                 if c' = 93 then Some (PList [], r)
                 else (case parse_elems n cs of
                         None \<Rightarrow> None | Some (xs, r') \<Rightarrow> Some (PList xs, r')))
          else if c = 123 then
            (case skip_ws cs of
               [] \<Rightarrow> None
             | c' # r \<Rightarrow>
                 if c' = 125 then Some (PDict [], r)
                 else (case parse_members n cs of
                         None \<Rightarrow> None | Some (kvs, r') \<Rightarrow> Some (PDict kvs, r')))
          else if take 4 (c # cs) = ascii ''null'' then Some (PNone, drop 4 (c # cs))
          else if take 4 (c # cs) = ascii ''true'' then Some (PBool True, drop 4 (c # cs))
          else if take 5 (c # cs) = ascii ''false'' then Some (PBool False, drop 5 (c # cs))
          else (case parse_int (c # cs) of
                  None \<Rightarrow> None | Some (i, r) \<Rightarrow> Some (PInt i, r)))"
| "parse_elems 0 s = None"
| "parse_elems (Suc n) s =
     (case parse_value n s of
        None \<Rightarrow> None
      | Some (v, r) \<Rightarrow>
          (case skip_ws r of
             [] \<Rightarrow> None
           | c # r' \<Rightarrow>
               if c = 93 then Some ([v], r')
               else if c = 44 then
                 (case parse_elems n r' of
                    None \<Rightarrow> None | Some (vs, r'') \<Rightarrow> Some (v # vs, r''))
               else None))"
| "parse_members 0 s = None"
| "parse_members (Suc n) s =
     (case skip_ws s of
        [] \<Rightarrow> None
      | q # s1 \<Rightarrow>
          if q \<noteq> 34 then None
          else (case parse_str (Suc (length s1)) s1 of
                  None \<Rightarrow> None
                | Some (k, s2) \<Rightarrow>
                    (case skip_ws s2 of
                       [] \<Rightarrow> None
                     | colon # s3 \<Rightarrow>
                         if colon \<noteq> 58 then None
                         else (case parse_value n s3 of
                                 None \<Rightarrow> None
                               | Some (v, r) \<Rightarrow>
                                   (case skip_ws r of
                                      [] \<Rightarrow> None
                                    | c # r' \<Rightarrow>
                                        if c = 125 then Some ([(k, v)], r')
                                        else if c = 44 then
                                          (case parse_members n r' of
                                             None \<Rightarrow> None
                                           | Some (kvs, r'') \<Rightarrow> Some ((k, v) # kvs, r''))
                                        else None)))))"

text \<open>Modelled from the spec: the whole text is one JSON value (decoder, absent).\<close>

definition parse_json :: "pystr \<Rightarrow> pyval option" where
  "parse_json s =
     (case parse_value (Suc (length s)) s of
        None \<Rightarrow> None
      | Some (v, r) \<Rightarrow> if skip_ws r = [] then Some v else None)"

text \<open>
  Modelled from the spec: the Event/Action schema of section 3, against which the decoder
  parses the text (decoder, absent). A field is checked by a predicate on its value; a
  required field that is missing and a field whose value fails its predicate are named.
\<close>

definition check_field ::
  "pystr \<Rightarrow> bool \<Rightarrow> (pyval \<Rightarrow> bool) \<Rightarrow> (pystr \<times> pyval) list \<Rightarrow> pystr option" where
  "check_field name required ok kvs =
     (case map_of kvs name of
        None \<Rightarrow> if required then Some name else None
      | Some v \<Rightarrow> if ok v then None else Some name)"

text \<open>Modelled from the spec: the first of a sequence of checks that fails (decoder, absent).\<close>

fun first_error :: "pystr option list \<Rightarrow> pystr option" where
  "first_error [] = None"
| "first_error (None # es) = first_error es"
| "first_error (Some f # es) = Some f"

text \<open>Modelled from the spec: the declared ranges of the fields of section 3 (decoder, absent).\<close>

definition is_text :: "pyval \<Rightarrow> bool" where
  "is_text v = (case v of PStr s \<Rightarrow> True | _ \<Rightarrow> False)"

definition is_nonempty_text :: "pyval \<Rightarrow> bool" where
  "is_nonempty_text v = (case v of PStr s \<Rightarrow> s \<noteq> [] | _ \<Rightarrow> False)"

definition is_time_text :: "pyval \<Rightarrow> bool" where
  "is_time_text v = (case v of PStr s \<Rightarrow> is_timestamp s | _ \<Rightarrow> False)"

definition is_boolean :: "pyval \<Rightarrow> bool" where
  "is_boolean v = (case v of PBool b \<Rightarrow> True | _ \<Rightarrow> False)"

definition is_style :: "pyval \<Rightarrow> bool" where
  "is_style v =
     (case v of
        PStr s \<Rightarrow> s \<in> set [ascii ''normal'', ascii ''emphasis'', ascii ''alert'']
      | _ \<Rightarrow> False)"

definition is_haptic :: "pyval \<Rightarrow> bool" where
  "is_haptic v =
     (case v of
        PStr s \<Rightarrow> s \<in> set [ascii ''single'', ascii ''double'', ascii ''triple'']
      | _ \<Rightarrow> False)"

definition is_color :: "pyval \<Rightarrow> bool" where
  "is_color v =
     (case v of
        PStr s \<Rightarrow> length s = 7 \<and> take 1 s = [35] \<and> list_all (\<lambda>c. hex_val c \<noteq> None) (drop 1 s)
      | _ \<Rightarrow> False)"

definition is_count :: "pyval \<Rightarrow> bool" where
  "is_count v = (case v of PInt i \<Rightarrow> 0 \<le> i | _ \<Rightarrow> False)"

definition count_of :: "pyval \<Rightarrow> int" where
  "count_of v = (case v of PInt i \<Rightarrow> i | _ \<Rightarrow> 0)"

definition is_countdown :: "pyval \<Rightarrow> bool" where
  "is_countdown v =
     (case v of
        PList xs \<Rightarrow> list_all is_count xs \<and> sorted_wrt (\<lambda>a b. count_of b < count_of a) xs
      | _ \<Rightarrow> False)"

text \<open>
  Modelled from the spec: the fields of an Action in the order of section 3; the six first
  are required, the five last optional (decoder, absent).
\<close>

definition action_error :: "pyval \<Rightarrow> pystr option" where
  "action_error v =
     (case v of
        PDict kvs \<Rightarrow>
          first_error
            [check_field (ascii ''id'') True is_text kvs,
             check_field (ascii ''time'') True is_time_text kvs,
             check_field (ascii ''action'') True is_nonempty_text kvs,
             check_field (ascii ''audioAnnounce'') True is_boolean kvs,
             check_field (ascii ''announceActionName'') True is_boolean kvs,
             check_field (ascii ''style'') True is_style kvs,
             check_field (ascii ''hapticPattern'') False is_haptic kvs,
             check_field (ascii ''color'') False is_color kvs,
             check_field (ascii ''icon'') False is_text kvs,
             check_field (ascii ''noticeSeconds'') False is_count kvs,
             check_field (ascii ''countdownSeconds'') False is_countdown kvs]
      | _ \<Rightarrow> Some (ascii ''timeline''))"

text \<open>Modelled from the spec: the \<open>id\<close> of an Action is unique within the event (decoder, absent).\<close>

definition action_ids :: "pyval list \<Rightarrow> pyval option list" where
  "action_ids acts = map (\<lambda>a. case a of PDict kvs \<Rightarrow> map_of kvs (ascii ''id'') | _ \<Rightarrow> None) acts"

definition timeline_error :: "pyval \<Rightarrow> pystr option" where
  "timeline_error v =
     (case v of
        PList acts \<Rightarrow>
          first_error (map action_error acts
                       @ [if distinct (action_ids acts) then None else Some (ascii ''id'')])
      | _ \<Rightarrow> Some (ascii ''timeline''))"

text \<open>
  Modelled from the spec: the fields of an Event in the order of section 3 (decoder,
  absent). A value that is no object has no field, so that \<open>title\<close> is the first one missing.
\<close>

definition event_error :: "pyval \<Rightarrow> pystr option" where
  "event_error v =
     (case v of
        PDict kvs \<Rightarrow>
          first_error
            [check_field (ascii ''title'') True is_nonempty_text kvs,
             check_field (ascii ''description'') False is_text kvs,
             check_field (ascii ''startTime'') True is_time_text kvs,
             check_field (ascii ''timezone'') True is_text kvs,
             check_field (ascii ''timeline'') True (\<lambda>t. timeline_error t = None) kvs,
             (case map_of kvs (ascii ''timeline'') of None \<Rightarrow> None | Some t \<Rightarrow> timeline_error t)]
      | _ \<Rightarrow> Some (ascii ''title''))"

text \<open>
  Modelled from the spec: \<open>decode(token) -> Event\<close> of section 4.2 (decoder, absent):
  padding, substitutions and base64; decompression, with \<open>CorruptPayloadError\<close> for both;
  the text parsed against the schema, with a \<open>SchemaError\<close> that names the field; the
  Event, which is the parsed value with its timeline in the order of the text.
\<close>

definition decode ::
  "(byte list \<Rightarrow> (byte list \<times> byte list) option) \<Rightarrow> pystr \<Rightarrow> decode_error + pyval" where
  "decode inflate tok =
     (case b64decode (undo_url_safe (add_padding tok)) of
        None \<Rightarrow> Inl CorruptPayloadError
      | Some compressed \<Rightarrow>
          (case gzip_decompress inflate compressed of
             None \<Rightarrow> Inl CorruptPayloadError
           | Some data \<Rightarrow>
               (case parse_json (map unat data) of
                  None \<Rightarrow> Inl (SchemaError (ascii ''title''))
                | Some v \<Rightarrow>
                    (case event_error v of
                       Some f \<Rightarrow> Inl (SchemaError f)
                     | None \<Rightarrow> Inr v))))"

section \<open>A deflate stream of stored blocks\<close>

text \<open>
  \<open>deflate\<close> is a parameter of \<open>gzip_compress\<close>. Where a concrete one is needed, the data
  is written as stored blocks (RFC 1951, 3.2.4): a header byte with the final-block bit,
  the length and its complement in two bytes each, then at most 65535 bytes of data.
  \<open>inflate_stored\<close> reads such a stream back and returns the bytes that follow it.
\<close>

definition le16 :: "nat \<Rightarrow> byte list" where
  "le16 n = [of_nat (n mod 256), of_nat (n div 256 mod 256)]"

fun deflate_blocks :: "nat \<Rightarrow> byte list \<Rightarrow> byte list" where
  "deflate_blocks 0 data = []"
| "deflate_blocks (Suc k) data =
     (if length data \<le> 65535
      then [1] @ le16 (length data) @ le16 (65535 - length data) @ data
      else [0] @ le16 65535 @ le16 0 @ take 65535 data @ deflate_blocks k (drop 65535 data))"

definition deflate_stored :: "byte list \<Rightarrow> byte list" where
  "deflate_stored data = deflate_blocks (Suc (length data div 65535)) data"

fun inflate_blocks :: "nat \<Rightarrow> byte list \<Rightarrow> (byte list \<times> byte list) option" where
  "inflate_blocks 0 bs = None"
| "inflate_blocks (Suc k) bs =
     (case bs of
        h # l0 # l1 # n0 # n1 # rest \<Rightarrow>
          (let len = unat l0 + 256 * unat l1
           in if (h \<noteq> 0 \<and> h \<noteq> 1) \<or> unat n0 + 256 * unat n1 \<noteq> 65535 - len
                 \<or> length rest < len then None
              else if h = 1 then Some (take len rest, drop len rest)
              else (case inflate_blocks k (drop len rest) of
                      None \<Rightarrow> None
                    | Some (data, r) \<Rightarrow> Some (take len rest @ data, r)))
      | _ \<Rightarrow> None)"

definition inflate_stored :: "byte list \<Rightarrow> (byte list \<times> byte list) option" where
  "inflate_stored bs = inflate_blocks (Suc (length bs)) bs"

section \<open>Notions used in the statements\<close>

text \<open>The alphabet of a token, \<open>[A-Za-z0-9_-]\<close>, and the alphabet of standard base64.\<close>

definition url_safe_alphabet :: "nat set" where
  "url_safe_alphabet = set (ascii ''ABCDEFGHIJKLMNOPQRSTUVWXYZabcdefghijklmnopqrstuvwxyz0123456789-_'')"

definition is_b64 :: "nat \<Rightarrow> bool" where
  "is_b64 c = ((65 \<le> c \<and> c \<le> 90) \<or> (97 \<le> c \<and> c \<le> 122) \<or> (48 \<le> c \<and> c \<le> 57) \<or> c = 43 \<or> c = 47)"

text \<open>
  For \<open>n\<close> input bytes, base64 emits \<open>b64_body_len n\<close> alphabet characters followed by
  \<open>b64_pad n\<close> padding characters.
\<close>

definition b64_pad :: "nat \<Rightarrow> nat" where
  "b64_pad n = (3 - n mod 3) mod 3"

definition b64_body_len :: "nat \<Rightarrow> nat" where
  "b64_body_len n = 4 * (n div 3) + (if n mod 3 = 0 then 0 else n mod 3 + 1)"

text \<open>The bytes that \<open>encode_event\<close> compresses: the compact JSON text, which is ASCII.\<close>

definition json_bytes :: "pyval \<Rightarrow> byte list" where
  "json_bytes event = map of_nat (json_dumps (ascii '','') (ascii '':'') event)"


text \<open>\<open>d.get(k)\<close> on a value, and the timeline of an event.\<close>

fun dict_lookup :: "pyval \<Rightarrow> pystr \<Rightarrow> pyval option" where
  "dict_lookup (PDict kvs) k = map_of kvs k"
| "dict_lookup _ k = None"

definition timeline_of :: "pyval \<Rightarrow> pyval list" where
  "timeline_of ev = (case dict_lookup ev (ascii ''timeline'') of Some (PList xs) \<Rightarrow> xs | _ \<Rightarrow> [])"

text \<open>
  The action templates of the specification: a dict (its keys distinct, as in every Python
  dict) that carries an integer \<open>relativeTime\<close> and the \<open>action\<close> text, and neither \<open>id\<close> nor
  \<open>time\<close>, the two fields the Builder assigns.
\<close>

fun relative_time :: "pyval \<Rightarrow> int" where
  "relative_time (PDict kvs) =
     (case map_of kvs (ascii ''relativeTime'') of
        Some v \<Rightarrow> (case py_number v of Inr r \<Rightarrow> r | Inl e \<Rightarrow> 0)
      | None \<Rightarrow> 0)"
| "relative_time _ = 0"

fun action_template_ok :: "pyval \<Rightarrow> bool" where
  "action_template_ok (PDict kvs) =
     (distinct (map fst kvs)
      \<and> (case map_of kvs (ascii ''relativeTime'') of Some (PInt r) \<Rightarrow> True | _ \<Rightarrow> False)
      \<and> map_of kvs (ascii ''action'') \<noteq> None
      \<and> map_of kvs (ascii ''id'') = None
      \<and> map_of kvs (ascii ''time'') = None)"
| "action_template_ok _ = False"

text \<open>
  The offsets for which \<open>timedelta\<close> and the addition to \<open>start\<close> stay within the ranges of
  \<open>timedelta\<close> and \<open>datetime\<close>.
\<close>

definition minutes_in_range :: "datetime \<Rightarrow> int \<Rightarrow> bool" where
  "minutes_in_range now m =
     (\<bar>m * 60000000 div us_per_day\<bar> \<le> 999999999 \<and> datetime_valid (now + m * 60000000))"

definition seconds_in_range :: "datetime \<Rightarrow> int \<Rightarrow> bool" where
  "seconds_in_range start s =
     (\<bar>s * 1000000 div us_per_day\<bar> \<le> 999999999 \<and> datetime_valid (start + s * 1000000))"

text \<open>
  The action templates of a named template of the table (the items the loop of
  \<open>generate_event\<close> draws), and what the Builder needs of the template: \<open>title\<close>, \<open>description\<close> and a list \<open>actions\<close> of action templates.
\<close>

definition template_actions :: "(pystr \<times> pyval) list \<Rightarrow> pystr \<Rightarrow> pyval list" where
  "template_actions events name =
     (case map_of events name of
        Some tpl \<Rightarrow>
          (case subscript tpl (ascii ''actions'') of
             Inr v \<Rightarrow> (case py_iter v of Inr items \<Rightarrow> items | Inl e \<Rightarrow> [])
           | Inl e \<Rightarrow> [])
      | None \<Rightarrow> [])"

definition template_ok :: "(pystr \<times> pyval) list \<Rightarrow> pystr \<Rightarrow> bool" where
  "template_ok events name =
     (case map_of events name of
        Some tpl \<Rightarrow>
          dict_lookup tpl (ascii ''title'') \<noteq> None
          \<and> dict_lookup tpl (ascii ''description'') \<noteq> None
          \<and> (case dict_lookup tpl (ascii ''actions'') of
                Some (PList ats) \<Rightarrow> list_all action_template_ok ats
              | _ \<Rightarrow> False)
      | None \<Rightarrow> False)"

definition offsets_in_range :: "datetime \<Rightarrow> int \<Rightarrow> int list \<Rightarrow> bool" where
  "offsets_in_range now m rs =
     (minutes_in_range now m \<and> list_all (seconds_in_range (now + m * 60000000)) rs)"

text \<open>
  The datetimes from \<open>1000-01-01T00:00:00\<close> on, whose year has four digits (day ordinal
  \<open>364878\<close> and later), and the four-digit form of such a year.
\<close>

definition four_digit_year :: "datetime \<Rightarrow> bool" where
  "four_digit_year dt = (364877 * us_per_day \<le> dt)"

definition pad4 :: "int \<Rightarrow> pystr" where
  "pad4 n = [48 + nat (n div 1000 mod 10), 48 + nat (n div 100 mod 10),
             48 + nat (n div 10 mod 10), 48 + nat (n mod 10)]"

text \<open>
  The start offset and the relative times for which every time the Builder computes is within
  the ranges of \<open>timedelta\<close> and \<open>datetime\<close> and in a year of four digits.
\<close>

definition times_ok :: "datetime \<Rightarrow> int \<Rightarrow> int list \<Rightarrow> bool" where
  "times_ok now m rs =
     (offsets_in_range now m rs
      \<and> four_digit_year (now + m * 60000000)
      \<and> list_all (\<lambda>r. four_digit_year (now + m * 60000000 + r * 1000000)) rs)"

text \<open>
  The calendar read backwards, as \<open>datetime\<close> has it in \<open>_is_leap\<close>, \<open>_days_before_year\<close>
  and \<open>_ymd2ord\<close>; \<open>month_day\<close> is the part of \<open>_ord2ymd\<close> that finds month and day within
  a year.
\<close>

definition is_leap :: "int \<Rightarrow> bool" where
  "is_leap y = (y mod 4 = 0 \<and> (y mod 100 \<noteq> 0 \<or> y mod 400 = 0))"

definition days_before_year :: "int \<Rightarrow> int" where
  "days_before_year year = (year - 1) * 365 + (year - 1) div 4 - (year - 1) div 100 + (year - 1) div 400"

definition ymd2ord :: "int \<Rightarrow> int \<Rightarrow> int \<Rightarrow> int" where
  "ymd2ord y m d = days_before_year y + (days_before_month m + (if m > 2 \<and> is_leap y then 1 else 0)) + d"

definition month_day :: "int \<Rightarrow> bool \<Rightarrow> int \<times> int" where
  "month_day r1 leapyear =
     (let month = (r1 + 50) div 32;
          preceding = days_before_month month + (if month > 2 \<and> leapyear then 1 else 0)
      in if preceding > r1
         then (month - 1,
               r1 - (preceding - (days_in_month (month - 1)
                                    + (if month - 1 = 2 \<and> leapyear then 1 else 0))) + 1)
         else (month, r1 - preceding + 1))"


text \<open>
  The instant a timestamp \<open>YYYY-MM-DDTHH:MM:SSZ\<close> denotes, in seconds since
  \<open>0001-01-01T00:00:00Z\<close>: the decimal fields are read back and the date is counted in days.
\<close>

definition timestamp_seconds :: "pystr \<Rightarrow> int" where
  "timestamp_seconds s =
     (ymd2ord (read_digits (take 4 s)) (read_digits (take 2 (drop 5 s)))
              (read_digits (take 2 (drop 8 s))) - 1) * 86400
     + read_digits (take 2 (drop 11 s)) * 3600
     + read_digits (take 2 (drop 14 s)) * 60
     + read_digits (take 2 (drop 17 s))"

text \<open>The keys of a Python dict are pairwise distinct.\<close>

fun dict_keys_distinct :: "pyval \<Rightarrow> bool" where
  "dict_keys_distinct (PDict kvs) = distinct (map fst kvs)"
| "dict_keys_distinct _ = True"

text \<open>The instants that the timestamps of an event and of an action denote.\<close>

definition field_seconds :: "pystr \<Rightarrow> pyval \<Rightarrow> int" where
  "field_seconds k v = (case dict_lookup v k of Some (PStr s) \<Rightarrow> timestamp_seconds s | _ \<Rightarrow> 0)"

definition start_seconds :: "pyval \<Rightarrow> int" where
  "start_seconds ev = field_seconds (ascii ''startTime'') ev"

definition action_seconds :: "pyval \<Rightarrow> int" where
  "action_seconds a = field_seconds (ascii ''time'') a"

definition has_timestamp :: "pystr \<Rightarrow> pyval \<Rightarrow> bool" where
  "has_timestamp k v = (case dict_lookup v k of Some (PStr s) \<Rightarrow> is_timestamp s | _ \<Rightarrow> False)"

text \<open>
  The two-action template of the specification's scenario,
  \<open>[{relativeTime:0, action:"A", style:"normal"}, {relativeTime:20, action:"B", style:"alert"}]\<close>,
  as a table with the one entry \<open>scenario\<close>.
\<close>

definition scenario_events :: "(pystr \<times> pyval) list" where
  "scenario_events =
     [(ascii ''scenario'', PDict
         [(ascii ''title'', PStr (ascii ''Scenario'')),
          (ascii ''description'', PStr []),
          (ascii ''actions'', PList
             [PDict [(ascii ''relativeTime'', PInt 0), (ascii ''action'', PStr (ascii ''A'')),
                     (ascii ''style'', PStr (ascii ''normal''))],
              PDict [(ascii ''relativeTime'', PInt 20), (ascii ''action'', PStr (ascii ''B'')),
                     (ascii ''style'', PStr (ascii ''alert''))]])])]"

text \<open>An action written out with an integer \<open>relativeTime\<close>, as \<open>generate_pantheon_event\<close> has them.\<close>

fun has_relative_time :: "pyval \<Rightarrow> bool" where
  "has_relative_time (PDict kvs) =
     (case map_of kvs (ascii ''relativeTime'') of Some (PInt r) \<Rightarrow> True | _ \<Rightarrow> False)"
| "has_relative_time _ = False"

text \<open>A text occurs in another as a contiguous part.\<close>

definition occurs_in :: "'a list \<Rightarrow> 'a list \<Rightarrow> bool" where
  "occurs_in xs ys = (\<exists>pre post. ys = pre @ xs @ post)"

text \<open>
  The text of a member \<open>"key":value\<close> in the compact JSON text, and an action whose
  \<open>relativeTime\<close> member is part of the JSON text of the event.
\<close>

definition member_text :: "pystr \<Rightarrow> pyval \<Rightarrow> pystr" where
  "member_text k v =
     py_encode_basestring_ascii k @ ascii '':'' @ json_dumps (ascii '','') (ascii '':'') v"

definition carries_relative_time :: "pyval \<Rightarrow> pyval \<Rightarrow> bool" where
  "carries_relative_time ev a =
     (case dict_lookup a (ascii ''relativeTime'') of
        Some v \<Rightarrow> occurs_in (member_text (ascii ''relativeTime'') v)
                    (json_dumps (ascii '','') (ascii '':'') ev)
      | None \<Rightarrow> False)"

text \<open>
  Two tables for the Builder's treatment of malformed templates: the scenario with the second
  action at \<open>relativeTime = -30\<close>, and the scenario with both action templates carrying the
  same \<open>id\<close>.
\<close>

definition negative_events :: "(pystr \<times> pyval) list" where
  "negative_events =
     [(ascii ''negative'', PDict
         [(ascii ''title'', PStr (ascii ''Scenario'')),
          (ascii ''description'', PStr []),
          (ascii ''actions'', PList
             [PDict [(ascii ''relativeTime'', PInt 0), (ascii ''action'', PStr (ascii ''A'')),
                     (ascii ''style'', PStr (ascii ''normal''))],
              PDict [(ascii ''relativeTime'', PInt (- 30)), (ascii ''action'', PStr (ascii ''B'')),
                     (ascii ''style'', PStr (ascii ''alert''))]])])]"

definition duplicate_events :: "(pystr \<times> pyval) list" where
  "duplicate_events =
     [(ascii ''duplicate'', PDict
         [(ascii ''title'', PStr (ascii ''Scenario'')),
          (ascii ''description'', PStr []),
          (ascii ''actions'', PList
             [PDict [(ascii ''relativeTime'', PInt 0), (ascii ''action'', PStr (ascii ''A'')),
                     (ascii ''id'', PStr (ascii ''x''))],
              PDict [(ascii ''relativeTime'', PInt 20), (ascii ''action'', PStr (ascii ''B'')),
                     (ascii ''id'', PStr (ascii ''x''))]])])]"

text \<open>
  Two events of the schema, after the scenarios of the specification: an event with an
  empty timeline, and an event of two actions that carry the required fields only.
\<close>

definition empty_event :: pyval where
  "empty_event =
     PDict [(ascii ''title'', PStr (ascii ''Scenario'')),
            (ascii ''startTime'', PStr (ascii ''2026-11-04T12:36:56Z'')),
            (ascii ''timezone'', PStr (ascii ''America/Los_Angeles'')),
            (ascii ''timeline'', PList [])]"

definition scenario_event :: pyval where
  "scenario_event =
     PDict [(ascii ''title'', PStr (ascii ''Scenario'')),
            (ascii ''description'', PStr []),
            (ascii ''startTime'', PStr (ascii ''2026-11-04T12:36:56Z'')),
            (ascii ''timezone'', PStr (ascii ''America/Los_Angeles'')),
            (ascii ''timeline'', PList
               [PDict [(ascii ''id'', PStr (ascii ''action-1'')),
                       (ascii ''time'', PStr (ascii ''2026-11-04T12:36:56Z'')),
                       (ascii ''action'', PStr (ascii ''A'')),
                       (ascii ''audioAnnounce'', PBool True),
                       (ascii ''announceActionName'', PBool False),
                       (ascii ''style'', PStr (ascii ''normal''))],
                PDict [(ascii ''id'', PStr (ascii ''action-2'')),
                       (ascii ''time'', PStr (ascii ''2026-11-04T12:37:16Z'')),
                       (ascii ''action'', PStr (ascii ''B'')),
                       (ascii ''audioAnnounce'', PBool True),
                       (ascii ''announceActionName'', PBool False),
                       (ascii ''style'', PStr (ascii ''alert''))]])]"

section \<open>The encoder: base64, the URL-safe alphabet and the JSON text\<close>

lemma url_safe_alphabet_iff: "c \<in> url_safe_alphabet \<longleftrightarrow> ((65 \<le> c \<and> c \<le> 90) \<or> (97 \<le> c \<and> c \<le> 122) \<or> (48 \<le> c \<and> c \<le> 57) \<or> c = 45 \<or> c = 95)"
  unfolding url_safe_alphabet_def ascii_def by (simp; arith)

lemma b64_char_cases:
  "n < 64 \<Longrightarrow> unat (b64_char n) = (if n < 26 then 65 + n else if n < 52 then 71 + n else if n < 62 then n - 4 else if n = 62 then 43 else 47)"
proof -
  have "\<forall>n \<in> set [0..<64]. unat (b64_char n) = (if n < 26 then 65 + n else if n < 52 then 71 + n else if n < 62 then n - 4 else if n = 62 then 43 else 47)"
    by code_simp
  then show "n < 64 \<Longrightarrow> ?thesis" by simp
qed

lemma b64_char_is_b64: "n < 64 \<Longrightarrow> is_b64 (unat (b64_char n))"
  by (simp add: b64_char_cases is_b64_def) arith

lemma unat_byte_bound: "unat (b :: byte) < 256"
  using unsigned_less [of b, where ?'a = nat] by simp

lemma sextet_bounds:
  "unat (a :: byte) div 4 < 64"
  "unat (a :: byte) mod 4 * 16 < 64"
  "unat (a :: byte) mod 4 * 16 + unat (b :: byte) div 16 < 64"
  "unat (b :: byte) mod 16 * 4 < 64"
  "unat (b :: byte) mod 16 * 4 + unat (c :: byte) div 64 < 64"
  "unat (c :: byte) mod 64 < 64"
  using unat_byte_bound [of a] unat_byte_bound [of b] unat_byte_bound [of c] by simp_all

lemma b64_pad_add3: "b64_pad (Suc (Suc (Suc n))) = b64_pad n"
proof -
  have "Suc (Suc (Suc n)) = n + 3" by simp
  then show ?thesis unfolding b64_pad_def by (simp only: mod_add_self2)
qed

lemma b64_body_len_add3: "b64_body_len (Suc (Suc (Suc n))) = 4 + b64_body_len n"
proof -
  have "Suc (Suc (Suc n)) = n + 3" by simp
  then show ?thesis unfolding b64_body_len_def by (simp only: mod_add_self2 div_add_self2) simp
qed

lemma b64encode_shape:
  "\<exists>body. b64encode bs = body @ replicate (b64_pad (length bs)) 61
     \<and> (\<forall>c \<in> set body. is_b64 (unat c)) \<and> length body = b64_body_len (length bs)"
proof (induction bs rule: b64encode.induct)
  case 1
  show ?case by (simp add: b64_pad_def b64_body_len_def)
next
  case (2 a)
  have "b64encode [a] = [b64_char (unat a div 4), b64_char (unat a mod 4 * 16)] @ replicate (b64_pad (length [a])) 61"
    by (simp add: b64_pad_def numeral_2_eq_2)
  moreover have "\<forall>c \<in> set [b64_char (unat a div 4), b64_char (unat a mod 4 * 16)]. is_b64 (unat c)"
    by (simp add: b64_char_is_b64 sextet_bounds)
  moreover have "length [b64_char (unat a div 4), b64_char (unat a mod 4 * 16)] = b64_body_len (length [a])"
    by (simp add: b64_body_len_def)
  ultimately show ?case by blast
next
  case (3 a b)
  have "b64encode [a, b] = [b64_char (unat a div 4), b64_char (unat a mod 4 * 16 + unat b div 16),
      b64_char (unat b mod 16 * 4)] @ replicate (b64_pad (length [a, b])) 61"
    by (simp add: b64_pad_def)
  moreover have "\<forall>c \<in> set [b64_char (unat a div 4), b64_char (unat a mod 4 * 16 + unat b div 16),
      b64_char (unat b mod 16 * 4)]. is_b64 (unat c)"
    by (simp add: b64_char_is_b64 sextet_bounds)
  moreover have "length [b64_char (unat a div 4), b64_char (unat a mod 4 * 16 + unat b div 16),
      b64_char (unat b mod 16 * 4)] = b64_body_len (length [a, b])"
    by (simp add: b64_body_len_def)
  ultimately show ?case by blast
next
  case (4 a b c rest)
  then obtain body where body: "b64encode rest = body @ replicate (b64_pad (length rest)) 61"
    "\<forall>c \<in> set body. is_b64 (unat c)" "length body = b64_body_len (length rest)"
    by blast
  let ?q = "[b64_char (unat a div 4), b64_char (unat a mod 4 * 16 + unat b div 16),
      b64_char (unat b mod 16 * 4 + unat c div 64), b64_char (unat c mod 64)]"
  have "b64encode (a # b # c # rest) = (?q @ body) @ replicate (b64_pad (length (a # b # c # rest))) 61"
    using body(1) by (simp add: b64_pad_add3)
  moreover have "\<forall>c \<in> set (?q @ body). is_b64 (unat c)"
    using body(2) by (simp add: b64_char_is_b64 sextet_bounds)
  moreover have "length (?q @ body) = b64_body_len (length (a # b # c # rest))"
    using body(3) by (simp add: b64_body_len_add3)
  ultimately show ?case by blast
qed

lemma rstrip_append_replicate:
  assumes "\<forall>x \<in> set xs. x \<noteq> c"
  shows "rstrip c (xs @ replicate k c) = xs"
proof -
  have "dropWhile (\<lambda>x. x = c) (replicate k c @ rev xs) = dropWhile (\<lambda>x. x = c) (rev xs)"
    by (induction k) simp_all
  also have "\<dots> = rev xs"
  proof (cases "rev xs")
    case Nil
    then show ?thesis by simp
  next
    case (Cons y ys)
    then have "y \<in> set xs" by (metis list.set_intros(1) set_rev)
    with assms have "y \<noteq> c" by blast
    with Cons show ?thesis by simp
  qed
  finally show ?thesis by (simp add: rstrip_def)
qed

lemma set_py_join: "set (py_join sep xs) \<subseteq> set sep \<union> \<Union> (set ` set xs)"
  by (induction sep xs rule: py_join.induct) auto

lemma hex_digit_ascii: "d < 16 \<Longrightarrow> hex_digit d < 128"
  by (simp add: hex_digit_def)

lemma u_escape_ascii: "c \<in> set (u_escape n) \<Longrightarrow> c < 128"
  by (auto simp: u_escape_def hex_digit_def)

lemma escape_char_ascii: "c \<in> set (escape_char n) \<Longrightarrow> c < 128"
  by (auto simp: escape_char_def dest: u_escape_ascii split: if_splits)

lemma encode_basestring_ascii: "c \<in> set (py_encode_basestring_ascii s) \<Longrightarrow> c < 128"
  by (auto simp: py_encode_basestring_ascii_def dest: escape_char_ascii)

lemma nat_repr_digits: "c \<in> set (nat_repr n) \<Longrightarrow> 48 \<le> c \<and> c \<le> 57"
proof (induction n arbitrary: c rule: nat_repr.induct)
  case (1 n)
  show ?case
  proof (cases "n < 10")
    case True
    with "1.prems" show ?thesis by (simp add: nat_repr.simps [of n])
  next
    case False
    with "1.prems" have "c \<in> set (nat_repr (n div 10)) \<or> c = 48 + n mod 10"
      by (auto simp: nat_repr.simps [of n])
    then show ?thesis
    proof
      assume "c \<in> set (nat_repr (n div 10))"
      with "1.IH" False show ?thesis by blast
    next
      assume "c = 48 + n mod 10"
      then show ?thesis by simp
    qed
  qed
qed

lemma int_repr_ascii: "c \<in> set (int_repr i) \<Longrightarrow> c < 128"
  by (auto simp: int_repr_def dest: nat_repr_digits split: if_splits)

lemma json_dumps_ascii:
  assumes "\<forall>c \<in> set isep. c < 128" and "\<forall>c \<in> set ksep. c < 128"
  shows "c \<in> set (json_dumps isep ksep v) \<Longrightarrow> c < 128"
proof (induction v arbitrary: c)
  case PNone
  then show ?case by (auto simp: ascii_def)
next
  case (PBool b)
  then show ?case by (auto simp: ascii_def split: if_splits)
next
  case (PInt i)
  then show ?case by (simp add: int_repr_ascii)
next
  case (PStr s)
  then show ?case by (simp add: encode_basestring_ascii)
next
  case (PList xs)
  from PList.prems have "c = 91 \<or> c = 93 \<or> c \<in> set (py_join isep (map (json_dumps isep ksep) xs))"
    by auto
  then show ?case
    using set_py_join [of isep "map (json_dumps isep ksep) xs"] assms(1) PList.IH by auto
next
  case (PDict kvs)
  let ?f = "\<lambda>kv. py_encode_basestring_ascii (fst kv) @ ksep @ json_dumps isep ksep (snd kv)"
  from PDict.prems have "c = 123 \<or> c = 125 \<or> c \<in> set (py_join isep (map ?f kvs))"
    by auto
  moreover have "c < 128" if "kv \<in> set kvs" "c \<in> set (?f kv)" for kv c
  proof -
    from that(2) consider "c \<in> set (py_encode_basestring_ascii (fst kv))" | "c \<in> set ksep"
      | "c \<in> set (json_dumps isep ksep (snd kv))" by auto
    then show ?thesis
    proof cases
      case 1 then show ?thesis by (rule encode_basestring_ascii)
    next
      case 2 then show ?thesis using assms(2) by blast
    next
      case 3
      have "snd kv \<in> Basic_BNFs.snds kv" by (cases kv) simp
      with PDict.IH that(1) 3 show ?thesis by blast
    qed
  qed
  ultimately show ?case
    using set_py_join [of isep "map ?f kvs"] assms(1) by auto
qed

lemma encode_utf8_ascii: "\<forall>c \<in> set s. c < 128 \<Longrightarrow> encode_utf8 s = Inr (map of_nat s)"
  by (induction s) simp_all

lemma decode_ascii_ok: "\<forall>b \<in> set bs. unat b < 128 \<Longrightarrow> decode_ascii bs = Inr (map unat bs)"
  by (induction bs) simp_all

lemma is_b64_ascii: "is_b64 c \<Longrightarrow> c < 128"
  by (auto simp: is_b64_def)

lemma b64encode_ascii: "b \<in> set (b64encode bs) \<Longrightarrow> unat b < 128"
proof -
  obtain body where "b64encode bs = body @ replicate (b64_pad (length bs)) 61"
    "\<forall>c \<in> set body. is_b64 (unat c)"
    using b64encode_shape [of bs] by blast
  then show "b \<in> set (b64encode bs) \<Longrightarrow> unat b < 128"
    by (auto dest: is_b64_ascii)
qed

lemma encode_event_eq:
  "encode_event deflate mtime event =
     Inr (url_safe_of (map unat (b64encode (gzip_compress deflate mtime (json_bytes event)))))"
proof -
  have "\<forall>c \<in> set (json_dumps (ascii '','') (ascii '':'') event). c < 128"
    using json_dumps_ascii [of "ascii '',''" "ascii '':''"] by (simp add: ascii_def)
  then have "encode_utf8 (json_dumps (ascii '','') (ascii '':'') event) = Inr (json_bytes event)"
    unfolding json_bytes_def by (rule encode_utf8_ascii)
  then show ?thesis
    by (simp add: encode_event_def decode_ascii_ok b64encode_ascii)
qed

lemma replace_b64_safe:
  "\<forall>c \<in> set xs. is_b64 c \<Longrightarrow>
     \<forall>x \<in> set (replace_char 47 95 (replace_char 43 45 xs)). x \<in> url_safe_alphabet"
  by (auto simp: replace_char_def url_safe_alphabet_iff is_b64_def)

lemma replace_char_append:
  "replace_char a b (xs @ ys) = replace_char a b xs @ replace_char a b ys"
  by (simp add: replace_char_def)

lemma replace_char_replicate:
  "c \<noteq> a \<Longrightarrow> replace_char a b (replicate k c) = replicate k c"
  by (simp add: replace_char_def)

lemma b64_body_len_mod4: "b64_body_len n mod 4 \<noteq> 1"
proof -
  consider "n mod 3 = 0" | "n mod 3 = 1" | "n mod 3 = 2" by arith
  then show ?thesis
    by cases (simp_all add: b64_body_len_def, presburger)
qed

lemma b64_body_len_pos: "0 < n \<Longrightarrow> 0 < b64_body_len n"
  unfolding b64_body_len_def by (cases "n mod 3 = 0") auto

lemma url_safe_of_b64encode:
  "\<exists>body. url_safe_of (map unat (b64encode bs)) = body
     \<and> set body \<subseteq> url_safe_alphabet \<and> length body = b64_body_len (length bs)"
proof -
  obtain body where body: "b64encode bs = body @ replicate (b64_pad (length bs)) 61"
    "\<forall>c \<in> set body. is_b64 (unat c)" "length body = b64_body_len (length bs)"
    using b64encode_shape [of bs] by blast
  let ?tok = "replace_char 47 95 (replace_char 43 45 (map unat body))"
  have eq: "replace_char 47 95 (replace_char 43 45 (map unat (b64encode bs)))
          = ?tok @ replicate (b64_pad (length bs)) 61"
    by (simp add: body(1) replace_char_append replace_char_replicate)
  have safe: "\<forall>x \<in> set ?tok. x \<in> url_safe_alphabet"
    using body(2) by (intro replace_b64_safe) simp
  then have "\<forall>x \<in> set ?tok. x \<noteq> 61"
    by (auto simp: url_safe_alphabet_iff)
  with eq have "url_safe_of (map unat (b64encode bs)) = ?tok"
    by (simp add: url_safe_of_def rstrip_append_replicate)
  moreover have "length ?tok = length body" by (simp add: replace_char_def)
  ultimately show ?thesis using safe body(3) by auto
qed

lemma gzip_compress_length:
  "length (gzip_compress deflate mtime data) = 18 + length (deflate data)"
  by (simp add: gzip_compress_def gzip_header_def gzip_trailer_def le32_def)


lemma b64_pad_le2: "b64_pad n \<le> 2"
  unfolding b64_pad_def by arith

lemma b64_pad_formula: "(4 - b64_body_len n mod 4) mod 4 = b64_pad n"
proof -
  consider "n mod 3 = 0" | "n mod 3 = 1" | "n mod 3 = 2" by arith
  then show ?thesis
  proof cases
    case 1
    then show ?thesis by (simp add: b64_body_len_def b64_pad_def)
  next
    case 2
    have "(4 * (n div 3) + 2) mod 4 = 2" by presburger
    with 2 show ?thesis by (simp add: b64_body_len_def b64_pad_def)
  next
    case 3
    have "(4 * (n div 3) + 3) mod 4 = 3" by presburger
    with 3 show ?thesis by (simp add: b64_body_len_def b64_pad_def)
  qed
qed

lemma b64encode_length: "length (b64encode bs) = b64_body_len (length bs) + b64_pad (length bs)"
proof -
  obtain body where "b64encode bs = body @ replicate (b64_pad (length bs)) 61"
    "length body = b64_body_len (length bs)"
    using b64encode_shape [of bs] by blast
  then show ?thesis by simp
qed

lemma b64encode_length_mod4: "length (b64encode bs) mod 4 = 0"
proof -
  let ?n = "length bs"
  consider "?n mod 3 = 0" | "?n mod 3 = 1" | "?n mod 3 = 2" by arith
  then show ?thesis
    by cases (simp_all add: b64encode_length b64_body_len_def b64_pad_def)
qed

section \<open>The builders: dictionaries and the loop over the action templates\<close>

lemma and_then_Inr [simp]: "and_then (Inr x) f = f x"
  by (simp add: and_then_def)

lemma and_then_Inl [simp]: "and_then (Inl e) f = Inl e"
  by (simp add: and_then_def)

lemma and_then_eq_Inr: "and_then r f = Inr y \<longleftrightarrow> (\<exists>x. r = Inr x \<and> f x = Inr y)"
  by (cases r) simp_all

lemma map_of_dict_set: "map_of (dict_set d k v) k' = (if k' = k then Some v else map_of d k')"
  by (induction d k v rule: dict_set.induct) auto

lemma map_of_dict_update_notin:
  "k \<notin> fst ` set items \<Longrightarrow> map_of (dict_update d items) k = map_of d k"
  unfolding dict_update_def
  by (induction items arbitrary: d) (simp_all add: map_of_dict_set)

lemma map_of_dict_update_in:
  "distinct (map fst items) \<Longrightarrow> (k, v) \<in> set items \<Longrightarrow> map_of (dict_update d items) k = Some v"
  unfolding dict_update_def
proof (induction items arbitrary: d)
  case Nil
  then show ?case by simp
next
  case (Cons kv items)
  show ?case
  proof (cases "(k, v) = kv")
    case True
    with Cons.prems(1) have "k \<notin> fst ` set items" by force
    then have "map_of (foldl (\<lambda>acc kv. dict_set acc (fst kv) (snd kv)) (dict_set d (fst kv) (snd kv)) items) k
        = map_of (dict_set d (fst kv) (snd kv)) k"
      using map_of_dict_update_notin [unfolded dict_update_def] by blast
    with True show ?thesis by (auto simp: map_of_dict_set)
  next
    case False
    with Cons.prems have "(k, v) \<in> set items" "distinct (map fst items)" by auto
    with Cons.IH show ?thesis by simp
  qed
qed

lemma timedelta_us_Inr: "timedelta_us us = Inr td \<longleftrightarrow> (\<bar>us div us_per_day\<bar> \<le> 999999999 \<and> td = us)"
  by (auto simp: timedelta_us_def)

lemma datetime_add_Inr: "datetime_add dt td = Inr r \<longleftrightarrow> (datetime_valid (dt + td) \<and> r = dt + td)"
  by (auto simp: datetime_add_def)

lemma timedelta_seconds_PInt:
  "seconds_in_range start s \<Longrightarrow> timedelta_seconds (PInt s) = Inr (s * 1000000)"
  by (simp add: timedelta_seconds_def seconds_in_range_def timedelta_us_def)

lemma build_action_ok:
  assumes "action_template_ok at" and "seconds_in_range start (relative_time at)"
  shows "\<exists>kvs lbl. at = PDict kvs \<and> map_of kvs (ascii ''action'') = Some lbl \<and>
     build_action start i at = Inr (PDict (dict_update
         [(ascii ''id'', PStr (action_id i)),
          (ascii ''time'', PStr (strftime_iso (start + relative_time at * 1000000))),
          (ascii ''action'', lbl),
          (ascii ''audioAnnounce'', PBool True),
          (ascii ''announceActionName'', PBool True)]
         (filter (\<lambda>kv. fst kv \<noteq> ascii ''action'') kvs)))"
proof -
  from assms(1) obtain kvs where at: "at = PDict kvs" by (cases at) simp_all
  from assms(1) at obtain r where r: "map_of kvs (ascii ''relativeTime'') = Some (PInt r)"
    by (auto split: option.splits pyval.splits)
  from assms(1) at obtain lbl where lbl: "map_of kvs (ascii ''action'') = Some lbl"
    by auto
  have rel: "relative_time at = r" using at r by simp
  from assms(2) rel have rng: "seconds_in_range start r" by simp
  then have "datetime_valid (start + r * 1000000)" by (simp add: seconds_in_range_def)
  then have "build_action start i at = Inr (PDict (dict_update
         [(ascii ''id'', PStr (action_id i)),
          (ascii ''time'', PStr (strftime_iso (start + r * 1000000))),
          (ascii ''action'', lbl),
          (ascii ''audioAnnounce'', PBool True),
          (ascii ''announceActionName'', PBool True)]
         (filter (\<lambda>kv. fst kv \<noteq> ascii ''action'') kvs)))"
    using at r lbl timedelta_seconds_PInt [OF rng]
    by (simp add: build_action_def datetime_add_def)
  with at lbl rel show ?thesis by simp
qed

lemma ascii_eq_iff [simp]: "ascii s = ascii t \<longleftrightarrow> s = t"
proof -
  have "inj (of_char :: char \<Rightarrow> nat)"
    by (rule injI) simp
  then show ?thesis unfolding ascii_def by (simp add: inj_map_eq_map)
qed

lemma map_of_filter_neq:
  "k \<noteq> k0 \<Longrightarrow> map_of (filter (\<lambda>kv. fst kv \<noteq> k0) kvs) k = map_of kvs k"
  by (induction kvs) auto

lemma map_of_filter_eq:
  "map_of (filter (\<lambda>kv. fst kv \<noteq> k0) kvs) k0 = None"
  by (induction kvs) auto

lemma map_of_None_notin: "map_of kvs k = None \<Longrightarrow> k \<notin> fst ` set kvs"
  by (simp add: map_of_eq_None_iff)

lemma map_of_dict_update:
  assumes "distinct (map fst items)"
  shows "map_of (dict_update d items) k =
           (case map_of items k of Some v \<Rightarrow> Some v | None \<Rightarrow> map_of d k)"
proof (cases "map_of items k")
  case None
  then show ?thesis
    by (simp add: map_of_dict_update_notin map_of_None_notin)
next
  case (Some v)
  then have "(k, v) \<in> set items" by (rule map_of_SomeD)
  with assms Some show ?thesis by (simp add: map_of_dict_update_in)
qed

lemma build_action_fields:
  assumes ok: "action_template_ok at" and rng: "seconds_in_range start (relative_time at)"
  shows "\<exists>a. build_action start i at = Inr a
     \<and> dict_lookup a (ascii ''id'') = Some (PStr (action_id i))
     \<and> dict_lookup a (ascii ''time'') = Some (PStr (strftime_iso (start + relative_time at * 1000000)))
     \<and> dict_lookup a (ascii ''action'') = dict_lookup at (ascii ''action'')
     \<and> dict_lookup a (ascii ''relativeTime'') = Some (PInt (relative_time at))
     \<and> dict_lookup a (ascii ''relativeTime'') = dict_lookup at (ascii ''relativeTime'')"
proof -
  from build_action_ok [OF ok rng, of i] obtain kvs lbl where
    at: "at = PDict kvs" and lbl: "map_of kvs (ascii ''action'') = Some lbl" and
    b: "build_action start i at = Inr (PDict (dict_update
         [(ascii ''id'', PStr (action_id i)),
          (ascii ''time'', PStr (strftime_iso (start + relative_time at * 1000000))),
          (ascii ''action'', lbl),
          (ascii ''audioAnnounce'', PBool True),
          (ascii ''announceActionName'', PBool True)]
         (filter (\<lambda>kv. fst kv \<noteq> ascii ''action'') kvs)))"
    by blast
  let ?items = "filter (\<lambda>kv. fst kv \<noteq> ascii ''action'') kvs"
  from ok at have d: "distinct (map fst ?items)" by (simp add: distinct_map_filter)
  from ok at have noid: "map_of kvs (ascii ''id'') = None" and notime: "map_of kvs (ascii ''time'') = None"
    by simp_all
  from ok at obtain r where r: "map_of kvs (ascii ''relativeTime'') = Some (PInt r)"
    by (auto split: option.splits pyval.splits)
  then have rel: "relative_time at = r" using at by simp
  have "map_of ?items (ascii ''id'') = None" "map_of ?items (ascii ''time'') = None"
    "map_of ?items (ascii ''action'') = None" "map_of ?items (ascii ''relativeTime'') = Some (PInt r)"
    using noid notime r by (simp_all add: map_of_filter_neq map_of_filter_eq)
  then show ?thesis
    using b at lbl r rel by (simp add: map_of_dict_update [OF d])
qed

lemma build_actions_ok:
  assumes "list_all action_template_ok ats"
    and "list_all (seconds_in_range start) (map relative_time ats)"
  shows "\<exists>acts. build_actions start i ats = Inr acts \<and> length acts = length ats
     \<and> (\<forall>j < length ats. build_action start (i + j) (ats ! j) = Inr (acts ! j))"
  using assms
proof (induction ats arbitrary: i)
  case Nil
  then show ?case by simp
next
  case (Cons at ats)
  from Cons.prems have ok: "action_template_ok at" and rng: "seconds_in_range start (relative_time at)"
    by simp_all
  from build_action_fields [OF ok rng, of i] obtain a where a: "build_action start i at = Inr a"
    by blast
  from Cons.prems have "list_all action_template_ok ats"
    "list_all (seconds_in_range start) (map relative_time ats)" by simp_all
  from Cons.IH [OF this, of "Suc i"] obtain acts where acts:
    "build_actions start (Suc i) ats = Inr acts" "length acts = length ats"
    "\<forall>j < length ats. build_action start (Suc i + j) (ats ! j) = Inr (acts ! j)"
    by blast
  have "\<forall>j < length (at # ats). build_action start (i + j) ((at # ats) ! j) = Inr ((a # acts) ! j)"
  proof (intro allI impI)
    fix j assume "j < length (at # ats)"
    then show "build_action start (i + j) ((at # ats) ! j) = Inr ((a # acts) ! j)"
      using a acts(3) by (cases j) simp_all
  qed
  with a acts(1,2) show ?case by simp
qed

lemma generate_event_ok:
  assumes tpl: "template_ok events name"
    and rng: "offsets_in_range now m (map relative_time (template_actions events name))"
  shows "\<exists>title description acts.
       generate_event events now name m = Inr (PDict
         [(ascii ''title'', title),
          (ascii ''description'', description),
          (ascii ''startTime'', PStr (strftime_iso (now + m * 60000000))),
          (ascii ''timezone'', PStr (ascii ''America/Denver'')),
          (ascii ''timeline'', PList acts)])
     \<and> length acts = length (template_actions events name)
     \<and> (\<forall>j < length acts.
           build_action (now + m * 60000000) j (template_actions events name ! j) = Inr (acts ! j))"
proof -
  from tpl obtain t where t: "map_of events name = Some t"
    by (auto simp: template_ok_def split: option.splits)
  with tpl obtain kvs where kvs: "t = PDict kvs"
    by (cases t) (auto simp: template_ok_def)
  from tpl t kvs obtain title description ats where
    f: "map_of kvs (ascii ''title'') = Some title"
       "map_of kvs (ascii ''description'') = Some description"
       "map_of kvs (ascii ''actions'') = Some (PList ats)"
       "list_all action_template_ok ats"
    by (auto simp: template_ok_def split: option.splits pyval.splits)
  have ats: "template_actions events name = ats"
    using t kvs f(3) by (simp add: template_actions_def)
  from rng have m: "minutes_in_range now m"
    and s: "list_all (seconds_in_range (now + m * 60000000)) (map relative_time ats)"
    by (simp_all add: offsets_in_range_def ats)
  from build_actions_ok [OF f(4) s, of 0] obtain acts where acts:
    "build_actions (now + m * 60000000) 0 ats = Inr acts" "length acts = length ats"
    "\<forall>j < length ats. build_action (now + m * 60000000) (0 + j) (ats ! j) = Inr (acts ! j)"
    by blast
  have "generate_event events now name m = Inr (PDict
         [(ascii ''title'', title),
          (ascii ''description'', description),
          (ascii ''startTime'', PStr (strftime_iso (now + m * 60000000))),
          (ascii ''timezone'', PStr (ascii ''America/Denver'')),
          (ascii ''timeline'', PList acts)])"
    using t kvs f acts(1) m
    by (simp add: generate_event_def timedelta_minutes_def timedelta_us_def datetime_add_def
        minutes_in_range_def)
  with acts(2,3) ats show ?thesis by auto
qed

lemma subscript_Inr: "subscript v k = Inr x \<longleftrightarrow> (\<exists>kvs. v = PDict kvs \<and> map_of kvs k = Some x)"
  by (cases v) (auto split: option.splits)

lemma timedelta_seconds_Inr:
  "timedelta_seconds v = Inr td \<longleftrightarrow>
     (\<exists>s. py_number v = Inr s \<and> \<bar>s * 1000000 div us_per_day\<bar> \<le> 999999999 \<and> td = s * 1000000)"
  by (auto simp: timedelta_seconds_def and_then_eq_Inr timedelta_us_Inr)

lemma build_action_Inr:
  assumes "build_action start i at = Inr a"
  shows "\<exists>kvs lbl. at = PDict kvs
     \<and> map_of kvs (ascii ''relativeTime'') \<noteq> None
     \<and> map_of kvs (ascii ''action'') = Some lbl
     \<and> seconds_in_range start (relative_time at)
     \<and> a = PDict (dict_update
         [(ascii ''id'', PStr (action_id i)),
          (ascii ''time'', PStr (strftime_iso (start + relative_time at * 1000000))),
          (ascii ''action'', lbl),
          (ascii ''audioAnnounce'', PBool True),
          (ascii ''announceActionName'', PBool True)]
         (filter (\<lambda>kv. fst kv \<noteq> ascii ''action'') kvs))"
proof -
  from assms obtain rel td action_time lbl where
    s: "subscript at (ascii ''relativeTime'') = Inr rel"
       "timedelta_seconds rel = Inr td"
       "datetime_add start td = Inr action_time"
       "subscript at (ascii ''action'') = Inr lbl"
    and a: "a = PDict (dict_update
         [(ascii ''id'', PStr (action_id i)),
          (ascii ''time'', PStr (strftime_iso action_time)),
          (ascii ''action'', lbl),
          (ascii ''audioAnnounce'', PBool True),
          (ascii ''announceActionName'', PBool True)]
         (template_items at))"
    unfolding build_action_def and_then_eq_Inr by auto
  from s(1) obtain kvs where kvs: "at = PDict kvs" "map_of kvs (ascii ''relativeTime'') = Some rel"
    unfolding subscript_Inr by blast
  from s(4) kvs(1) have lbl: "map_of kvs (ascii ''action'') = Some lbl"
    by (simp split: option.splits)
  from s(2) obtain r where r: "py_number rel = Inr r" "\<bar>r * 1000000 div us_per_day\<bar> \<le> 999999999"
    "td = r * 1000000"
    unfolding timedelta_seconds_Inr by blast
  have rel: "relative_time at = r" using kvs r(1) by simp
  from s(3) r(3) have t: "datetime_valid (start + r * 1000000)" "action_time = start + r * 1000000"
    by (simp_all add: datetime_add_Inr)
  have "seconds_in_range start r" using r(2) t(1) by (simp add: seconds_in_range_def)
  with kvs lbl rel a t(2) show ?thesis by simp
qed

lemma build_actions_Inr:
  "build_actions start i ats = Inr acts \<Longrightarrow>
     length acts = length ats
     \<and> (\<forall>j < length ats. build_action start (i + j) (ats ! j) = Inr (acts ! j))"
proof (induction ats arbitrary: i acts)
  case Nil
  then show ?case by simp
next
  case (Cons at ats)
  from Cons.prems obtain a rest where a: "build_action start i at = Inr a"
    and rest: "build_actions start (Suc i) ats = Inr rest" and acts: "acts = a # rest"
    by (auto simp: and_then_eq_Inr)
  from Cons.IH [OF rest] have ih: "length rest = length ats"
    "\<forall>j < length ats. build_action start (Suc i + j) (ats ! j) = Inr (rest ! j)"
    by simp_all
  have "\<forall>j < length (at # ats). build_action start (i + j) ((at # ats) ! j) = Inr (acts ! j)"
  proof (intro allI impI)
    fix j assume "j < length (at # ats)"
    then show "build_action start (i + j) ((at # ats) ! j) = Inr (acts ! j)"
      using a ih(2) acts by (cases j) simp_all
  qed
  with ih(1) acts show ?case by simp
qed

lemma generate_event_Inr:
  assumes "generate_event events now name m = Inr ev"
  shows "\<exists>title description acts.
       ev = PDict
         [(ascii ''title'', title),
          (ascii ''description'', description),
          (ascii ''startTime'', PStr (strftime_iso (now + m * 60000000))),
          (ascii ''timezone'', PStr (ascii ''America/Denver'')),
          (ascii ''timeline'', PList acts)]
     \<and> minutes_in_range now m
     \<and> length acts = length (template_actions events name)
     \<and> (\<forall>j < length acts.
           build_action (now + m * 60000000) j (template_actions events name ! j) = Inr (acts ! j))"
proof -
  from assms obtain template td start_time action_templates items actions title description where
    s: "subscript (PDict events) name = Inr template"
       "timedelta_minutes m = Inr td"
       "datetime_add now td = Inr start_time"
       "subscript template (ascii ''actions'') = Inr action_templates"
       "py_iter action_templates = Inr items"
       "build_actions start_time 0 items = Inr actions"
       "subscript template (ascii ''title'') = Inr title"
       "subscript template (ascii ''description'') = Inr description"
    and ev: "ev = PDict
         [(ascii ''title'', title),
          (ascii ''description'', description),
          (ascii ''startTime'', PStr (strftime_iso start_time)),
          (ascii ''timezone'', PStr (ascii ''America/Denver'')),
          (ascii ''timeline'', PList actions)]"
    unfolding generate_event_def and_then_eq_Inr by auto
  from s(2) have td: "td = m * 60000000" "\<bar>m * 60000000 div us_per_day\<bar> \<le> 999999999"
    by (simp_all add: timedelta_minutes_def timedelta_us_Inr)
  from s(3) td(1) have st: "start_time = now + m * 60000000" "datetime_valid (now + m * 60000000)"
    by (simp_all add: datetime_add_Inr)
  have rng: "minutes_in_range now m" using td(2) st(2) by (simp add: minutes_in_range_def)
  from s(1) have "map_of events name = Some template" by (simp split: option.splits)
  then have items: "template_actions events name = items"
    using s(4,5) by (simp add: template_actions_def)
  from build_actions_Inr [OF s(6)] have "length actions = length items"
    "\<forall>j < length items. build_action start_time (0 + j) (items ! j) = Inr (actions ! j)"
    by simp_all
  with ev st(1) rng items show ?thesis by simp
qed

section \<open>The calendar: \<open>_ord2ymd\<close> and \<open>_ymd2ord\<close> are inverse\<close>

lemma div_eq_of_bounds:
  fixes x q k :: int
  assumes "k * q \<le> x" "x < k * q + k" "0 < k"
  shows "x div k = q"
proof -
  have "x = q * k + (x - k * q)" by (simp add: algebra_simps)
  moreover have "0 \<le> x - k * q" "x - k * q < k" using assms by simp_all
  ultimately show ?thesis
    by (metis div_pos_pos_trivial div_mult_self3 add.right_neutral assms(3) less_irrefl add.commute)
qed

lemma year_decomp:
  fixes a b c e :: int
  assumes "0 \<le> b" "b \<le> 3" "0 \<le> c" "c \<le> 24" "0 \<le> e" "e \<le> 3"
  defines "y1 \<equiv> 400 * a + 100 * b + 4 * c + e"
  shows "y1 div 4 = 100 * a + 25 * b + c" "y1 div 100 = 4 * a + b" "y1 div 400 = a"
  using assms by (auto intro!: div_eq_of_bounds)

lemma mod_zero_range:
  fixes x k :: int
  assumes "0 < x" "x \<le> k"
  shows "x mod k = 0 \<longleftrightarrow> x = k"
proof (cases "x = k")
  case True
  then show ?thesis by simp
next
  case False
  with assms have "x < k" by simp
  with assms(1) have "x mod k = x" by simp
  with assms(1) False show ?thesis by simp
qed

lemma leap_decomp:
  fixes a b c e :: int
  assumes "0 \<le> b" "b \<le> 3" "0 \<le> c" "c \<le> 24" "0 \<le> e" "e \<le> 3"
  shows "is_leap (400 * a + 100 * b + 4 * c + e + 1) \<longleftrightarrow> (e = 3 \<and> (c \<noteq> 24 \<or> b = 3))"
proof -
  let ?y = "400 * a + 100 * b + 4 * c + e + 1"
  have m4: "?y mod 4 = (e + 1) mod 4"
  proof -
    have "?y = (e + 1) + 4 * (100 * a + 25 * b + c)" by simp
    then show ?thesis by (simp only: mod_mult_self2)
  qed
  have m100: "?y mod 100 = (4 * c + e + 1) mod 100"
  proof -
    have "?y = (4 * c + e + 1) + 100 * (4 * a + b)" by simp
    then show ?thesis by (simp only: mod_mult_self2)
  qed
  have m400: "?y mod 400 = (100 * b + 4 * c + e + 1) mod 400"
  proof -
    have "?y = (100 * b + 4 * c + e + 1) + 400 * a" by simp
    then show ?thesis by (simp only: mod_mult_self2)
  qed
  have e4: "(e + 1) mod 4 = 0 \<longleftrightarrow> e = 3"
    using assms(5,6) mod_zero_range [of "e + 1" 4] by auto
  have "4 * c + e + 1 = 100 \<longleftrightarrow> (c = 24 \<and> e = 3)"
    using assms(3-6) by linarith
  moreover have "(4 * c + e + 1) mod 100 = 0 \<longleftrightarrow> 4 * c + e + 1 = 100"
    using assms(3-6) by (intro mod_zero_range) linarith+
  ultimately have c100: "(4 * c + e + 1) mod 100 = 0 \<longleftrightarrow> (c = 24 \<and> e = 3)"
    by simp
  have "100 * b + 4 * c + e + 1 = 400 \<longleftrightarrow> (b = 3 \<and> c = 24 \<and> e = 3)"
    using assms by linarith
  moreover have "(100 * b + 4 * c + e + 1) mod 400 = 0 \<longleftrightarrow> 100 * b + 4 * c + e + 1 = 400"
    using assms by (intro mod_zero_range) linarith+
  ultimately have b400: "(100 * b + 4 * c + e + 1) mod 400 = 0 \<longleftrightarrow> (b = 3 \<and> c = 24 \<and> e = 3)"
    by simp
  show ?thesis unfolding is_leap_def m4 m100 m400 e4 c100 b400 by auto
qed

lemma month_day_ok:
  assumes "0 \<le> r" "r < 365"
  shows "case month_day r l of (m, d) \<Rightarrow>
        1 \<le> m \<and> m \<le> 12 \<and> 1 \<le> d \<and> d \<le> 31
        \<and> days_before_month m + (if m > 2 \<and> l then 1 else 0) + d = r + 1"
proof -
  define m0 where "m0 = (r + 50) div 32"
  have lo: "32 * m0 \<le> r + 50" unfolding m0_def by (simp add: algebra_simps)
  have "(r + 50) mod 32 < 32" by simp
  then have hi: "r + 50 < 32 * m0 + 32" unfolding m0_def
    using mult_div_mod_eq [of 32 "r + 50"] by linarith
  from lo hi assms have "1 \<le> m0" "m0 \<le> 12" by linarith+
  then consider "m0 = 1" | "m0 = 2" | "m0 = 3" | "m0 = 4" | "m0 = 5" | "m0 = 6"
    | "m0 = 7" | "m0 = 8" | "m0 = 9" | "m0 = 10" | "m0 = 11" | "m0 = 12"
    by atomize_elim arith
  then show ?thesis
  proof cases
    case 1 with lo hi assms show ?thesis
      by (simp add: month_day_def Let_def flip: m0_def) (simp add: days_before_month_def days_in_month_def)
  next
    case 2 with lo hi assms show ?thesis
      by (simp add: month_day_def Let_def flip: m0_def) (auto simp add: days_before_month_def days_in_month_def)
  next
    case 3 with lo hi assms show ?thesis
      by (simp add: month_day_def Let_def flip: m0_def) (auto simp add: days_before_month_def days_in_month_def)
  next
    case 4 with lo hi assms show ?thesis
      by (simp add: month_day_def Let_def flip: m0_def) (auto simp add: days_before_month_def days_in_month_def)
  next
    case 5 with lo hi assms show ?thesis
      by (simp add: month_day_def Let_def flip: m0_def) (auto simp add: days_before_month_def days_in_month_def)
  next
    case 6 with lo hi assms show ?thesis
      by (simp add: month_day_def Let_def flip: m0_def) (auto simp add: days_before_month_def days_in_month_def)
  next
    case 7 with lo hi assms show ?thesis
      by (simp add: month_day_def Let_def flip: m0_def) (auto simp add: days_before_month_def days_in_month_def)
  next
    case 8 with lo hi assms show ?thesis
      by (simp add: month_day_def Let_def flip: m0_def) (auto simp add: days_before_month_def days_in_month_def)
  next
    case 9 with lo hi assms show ?thesis
      by (simp add: month_day_def Let_def flip: m0_def) (auto simp add: days_before_month_def days_in_month_def)
  next
    case 10 with lo hi assms show ?thesis
      by (simp add: month_day_def Let_def flip: m0_def) (auto simp add: days_before_month_def days_in_month_def)
  next
    case 11 with lo hi assms show ?thesis
      by (simp add: month_day_def Let_def flip: m0_def) (auto simp add: days_before_month_def days_in_month_def)
  next
    case 12 with lo hi assms show ?thesis
      by (simp add: month_day_def Let_def flip: m0_def) (auto simp add: days_before_month_def days_in_month_def)
  qed
qed

lemma if_pair: "(if P then (y, p) else (y, q)) = (y, if P then p else q)"
  by simp

lemma ord2ymd_unfold:
  "ord2ymd n =
     (let a = (n - 1) div 146097; r400 = (n - 1) mod 146097;
          b = r400 div 36524; r100 = r400 mod 36524;
          c = r100 div 1461; r4 = r100 mod 1461;
          e = r4 div 365; r1 = r4 mod 365
      in if e = 4 \<or> b = 4 then (a * 400 + 1 + b * 100 + c * 4 + e - 1, 12, 31)
         else (a * 400 + 1 + b * 100 + c * 4 + e,
               month_day r1 (e = 3 \<and> (c \<noteq> 24 \<or> b = 3))))"
  unfolding ord2ymd_def month_day_def Let_def if_pair ..

lemma divmod_facts:
  fixes x k :: int
  assumes "0 < k"
  shows "x = k * (x div k) + x mod k" "0 \<le> x mod k" "x mod k < k"
  using assms by simp_all

lemma ord2ymd_inverse_bounded:
  assumes "1 \<le> n" and "n \<le> 3652059"
  shows "\<exists>y m d. ord2ymd n = (y, m, d) \<and> ymd2ord y m d = n
           \<and> 1 \<le> y \<and> y \<le> 9999 \<and> (364878 \<le> n \<longrightarrow> 1000 \<le> y)
           \<and> 1 \<le> m \<and> m \<le> 12 \<and> 1 \<le> d \<and> d \<le> 31"
proof -
  define a where "a = (n - 1) div 146097"
  define r400 where "r400 = (n - 1) mod 146097"
  define b where "b = r400 div 36524"
  define r100 where "r100 = r400 mod 36524"
  define c where "c = r100 div 1461"
  define r4 where "r4 = r100 mod 1461"
  define e where "e = r4 div 365"
  define r1 where "r1 = r4 mod 365"
  have n: "n - 1 = 146097 * a + r400" "0 \<le> r400" "r400 < 146097"
    unfolding a_def r400_def by simp_all
  have r400: "r400 = 36524 * b + r100" "0 \<le> r100" "r100 < 36524"
    unfolding b_def r100_def by simp_all
  have r100: "r100 = 1461 * c + r4" "0 \<le> r4" "r4 < 1461"
    unfolding c_def r4_def by simp_all
  have r4: "r4 = 365 * e + r1" "0 \<le> r1" "r1 < 365"
    unfolding e_def r1_def by simp_all
  have a0: "0 \<le> a" using assms unfolding a_def by (simp add: pos_imp_zdiv_nonneg_iff)
  have a24: "a \<le> 24" using n assms(2) by linarith
  have b0: "0 \<le> b" using n(2) unfolding b_def by (simp add: pos_imp_zdiv_nonneg_iff)
  have c0: "0 \<le> c" using r400(2) unfolding c_def by (simp add: pos_imp_zdiv_nonneg_iff)
  have e0: "0 \<le> e" using r100(2) unfolding e_def by (simp add: pos_imp_zdiv_nonneg_iff)
  have b4: "b \<le> 4" using n(3) r400 by linarith
  have c24: "c \<le> 24" using r400(3) r100 by linarith
  have e4: "e \<le> 4" using r100(3) r4 by linarith
  have "ord2ymd n = (if e = 4 \<or> b = 4 then (a * 400 + 1 + b * 100 + c * 4 + e - 1, 12, 31)
         else (a * 400 + 1 + b * 100 + c * 4 + e, month_day r1 (e = 3 \<and> (c \<noteq> 24 \<or> b = 3))))"
    unfolding ord2ymd_unfold Let_def a_def r400_def b_def r100_def c_def r4_def e_def r1_def ..
  then have ord: "ord2ymd n = (if e = 4 \<or> b = 4 then (400 * a + 100 * b + 4 * c + e, 12, 31)
         else (400 * a + 100 * b + 4 * c + e + 1, month_day r1 (e = 3 \<and> (c \<noteq> 24 \<or> b = 3))))"
    by (simp add: algebra_simps)
  show ?thesis
  proof (cases "b = 4")
    case True
    with n(3) r400 r100 r4 c0 e0 have z: "r100 = 0" "c = 0" "e = 0" "r1 = 0" "r4 = 0" by linarith+
    let ?y = "400 * a + 400"
    have o: "ord2ymd n = (?y, 12, 31)" using ord True z by simp
    have y1: "?y - 1 = 400 * a + 100 * 3 + 4 * 24 + 3" by simp
    have d: "(?y - 1) div 4 = 100 * a + 25 * 3 + 24" "(?y - 1) div 100 = 4 * a + 3"
      "(?y - 1) div 400 = a"
      unfolding y1 by (rule year_decomp; simp)+
    have "is_leap (400 * a + 100 * 3 + 4 * 24 + 3 + 1)"
      by (subst leap_decomp) simp_all
    then have l: "is_leap ?y" by (simp add: algebra_simps)
    have "ymd2ord ?y 12 31 = n"
      unfolding ymd2ord_def days_before_year_def d using l n(1) r400(1) True z
      by (simp add: days_before_month_def)
    moreover have "?y \<le> 9999" using n(1) r400(1) True z assms(2) by linarith
    moreover have "1000 \<le> ?y" if "364878 \<le> n"
    proof -
      from that n(1) r400(1) True z have "2 \<le> a" by linarith
      then show ?thesis by linarith
    qed
    ultimately show ?thesis using o a0 by simp
  next
    case bn4: False
    with b4 have b3: "b \<le> 3" by simp
    show ?thesis
    proof (cases "e = 4")
      case True
      with r4 r100 have z: "r1 = 0" "r4 = 1460" by linarith+
      with r100 r400(3) have c23: "c \<le> 23" by linarith
      let ?y = "400 * a + 100 * b + 4 * c + 4"
      have o: "ord2ymd n = (?y, 12, 31)" using ord True by simp
      have y1: "?y - 1 = 400 * a + 100 * b + 4 * c + 3" by simp
      have d: "(?y - 1) div 4 = 100 * a + 25 * b + c" "(?y - 1) div 100 = 4 * a + b"
        "(?y - 1) div 400 = a"
        unfolding y1 using b0 b3 c0 c24 by (auto intro!: year_decomp)
      have "is_leap (400 * a + 100 * b + 4 * c + 3 + 1)"
        using b0 b3 c0 c23 by (subst leap_decomp) simp_all
      then have l: "is_leap ?y" by (simp add: algebra_simps)
      have "ymd2ord ?y 12 31 = n"
        unfolding ymd2ord_def days_before_year_def d using l n(1) r400(1) r100(1) z
        by (simp add: days_before_month_def)
      moreover have "1 \<le> ?y" using a0 b0 c0 by linarith
      moreover have "?y \<le> 9999" using a24 b3 c23 by linarith
      moreover have "1000 \<le> ?y" if "364878 \<le> n"
      proof (rule ccontr)
        assume "\<not> 1000 \<le> ?y"
        then have y: "400 * a + 100 * b + 4 * c \<le> 995" by linarith
        have eq: "n - 1 = 146097 * a + 36524 * b + 1461 * c + 1460"
          using n(1) r400(1) r100(1) z by linarith
        from y b0 c0 have "a \<le> 2" by linarith
        then consider "a \<le> 1" | "a = 2" by linarith
        then show False
        proof cases
          case 1
          with eq that b3 c23 show False by linarith
        next
          case 2
          with y c0 have "b \<le> 1" by linarith
          with 2 eq that c23 show False by linarith
        qed
      qed
      ultimately show ?thesis using o by simp
    next
      case False
      with e4 have e3: "e \<le> 3" by simp
      let ?y = "400 * a + 100 * b + 4 * c + e + 1"
      let ?l = "e = 3 \<and> (c \<noteq> 24 \<or> b = 3)"
      obtain m d where md: "month_day r1 ?l = (m, d)" by (cases "month_day r1 ?l")
      have o: "ord2ymd n = (?y, m, d)" using ord False bn4 md by simp
      from month_day_ok [OF r4(2,3), of ?l] md
      have mdok: "1 \<le> m" "m \<le> 12" "1 \<le> d" "d \<le> 31"
        "days_before_month m + (if m > 2 \<and> ?l then 1 else 0) + d = r1 + 1"
        by simp_all
      have y1: "?y - 1 = 400 * a + 100 * b + 4 * c + e" by simp
      have dv: "(?y - 1) div 4 = 100 * a + 25 * b + c" "(?y - 1) div 100 = 4 * a + b"
        "(?y - 1) div 400 = a"
        unfolding y1 using b0 b3 c0 c24 e0 e3 by (auto intro!: year_decomp)
      have l: "is_leap ?y \<longleftrightarrow> ?l"
        using b0 b3 c0 c24 e0 e3 by (rule leap_decomp)
      have "ymd2ord ?y m d = days_before_year ?y + (r1 + 1)"
        unfolding ymd2ord_def l using mdok(5) by simp
      also have "\<dots> = n"
        unfolding days_before_year_def dv using n(1) r400(1) r100(1) r4(1) by simp
      finally have "ymd2ord ?y m d = n" .
      moreover have "1 \<le> ?y" using a0 b0 c0 e0 by linarith
      moreover have "?y \<le> 9999"
      proof (cases "a = 24")
        case True
        with n(1) r400(1) r100(1) r4(1,2) assms(2) have "36524 * b + 1461 * c + 365 * e \<le> 145730"
          by linarith
        with b3 c24 e3 have "100 * b + 4 * c + e \<le> 398" by linarith
        with True show ?thesis by linarith
      next
        case False
        with a24 have "a \<le> 23" by simp
        with b3 c24 e3 show ?thesis by linarith
      qed
      moreover have "1000 \<le> ?y" if "364878 \<le> n"
      proof (rule ccontr)
        assume "\<not> 1000 \<le> ?y"
        then have y: "400 * a + 100 * b + 4 * c + e \<le> 998" by linarith
        have eq: "n - 1 = 146097 * a + 36524 * b + 1461 * c + 365 * e + r1"
          using n(1) r400(1) r100(1) r4(1) by linarith
        from y b0 c0 e0 have "a \<le> 2" by linarith
        then consider "a \<le> 1" | "a = 2" by linarith
        then show False
        proof cases
          case 1
          with eq that b3 c24 e3 r4(3) show False by linarith
        next
          case 2
          with y c0 e0 have "b \<le> 1" by linarith
          then consider "b \<le> 0" | "b = 1" by linarith
          then show False
          proof cases
            case 1
            with \<open>a = 2\<close> eq that c24 e3 r4(3) show False by linarith
          next
            case 2
            with \<open>a = 2\<close> y have "4 * c + e \<le> 98" by linarith
            with \<open>a = 2\<close> 2 eq that c24 e0 r4(3) show False by linarith
          qed
        qed
      qed
      ultimately show ?thesis using o mdok by simp
    qed
  qed
qed

section \<open>Timestamps: the shape of \<open>strftime\<close> and the instant read back\<close>

lemma digit_val_nat: "0 \<le> x \<Longrightarrow> digit_val (48 + nat x) = x"
  by (simp add: digit_val_def)

lemma read_digits_pad2:
  assumes "0 \<le> n" "n < 100"
  shows "read_digits (pad2 n) = n"
proof -
  have "n div 10 < 10" using assms by simp
  moreover have "0 \<le> n div 10" using assms by simp
  ultimately have "n div 10 mod 10 = n div 10" by simp
  moreover have "0 \<le> n mod 10" by simp
  ultimately show ?thesis
    using \<open>0 \<le> n div 10\<close> by (simp add: read_digits_def pad2_def digit_val_nat)
qed

lemma read_digits_pad4:
  assumes "0 \<le> n" "n < 10000"
  shows "read_digits (pad4 n) = n"
proof -
  define p where "p = n div 10"
  define q where "q = p div 10"
  define r where "r = q div 10"
  have n: "n = 10 * p + n mod 10" unfolding p_def by simp
  have p: "p = 10 * q + p mod 10" unfolding q_def by simp
  have q: "q = 10 * r + q mod 10" unfolding r_def by simp
  have q100: "n div 100 = q" unfolding q_def p_def by (simp add: zdiv_zmult2_eq [symmetric])
  have r1000: "n div 1000 = r" unfolding r_def q_def p_def by (simp add: zdiv_zmult2_eq [symmetric])
  have "0 \<le> r" "r < 10" using assms r1000 by simp_all
  then have rm: "r mod 10 = r" by simp
  have nn: "0 \<le> r mod 10" "0 \<le> q mod 10" "0 \<le> p mod 10" "0 \<le> n mod 10" by simp_all
  have "read_digits (pad4 n) = ((r mod 10 * 10 + q mod 10) * 10 + p mod 10) * 10 + n mod 10"
    unfolding read_digits_def pad4_def q100 r1000 p_def [symmetric]
    using nn by (simp add: digit_val_nat)
  also have "\<dots> = n" using n p q rm by simp
  finally show ?thesis .
qed

lemma pad_lengths [simp]: "length (pad2 n) = 2" "length (pad4 n) = 4"
  by (simp_all add: pad2_def pad4_def)

lemma pad2_digits: "c \<in> set (pad2 n) \<Longrightarrow> is_digit c"
proof -
  have "0 \<le> n div 10 mod 10" "n div 10 mod 10 < 10" "0 \<le> n mod 10" "n mod 10 < 10" by simp_all
  then show "c \<in> set (pad2 n) \<Longrightarrow> is_digit c"
    by (auto simp: pad2_def is_digit_def)
qed

lemma pad4_digits: "c \<in> set (pad4 n) \<Longrightarrow> is_digit c"
proof -
  have "0 \<le> n div 1000 mod 10" "n div 1000 mod 10 < 10" "0 \<le> n div 100 mod 10" "n div 100 mod 10 < 10"
    "0 \<le> n div 10 mod 10" "n div 10 mod 10 < 10" "0 \<le> n mod 10" "n mod 10 < 10" by simp_all
  then show "c \<in> set (pad4 n) \<Longrightarrow> is_digit c"
    by (auto simp: pad4_def is_digit_def)
qed

lemma strftime_iso_fields:
  "\<exists>y m d. ord2ymd (t div us_per_day + 1) = (y, m, d) \<and>
     strftime_iso t = int_repr y @ [45] @ pad2 m @ [45] @ pad2 d @ [84]
         @ pad2 (t mod us_per_day div 1000000 div 3600) @ [58]
         @ pad2 (t mod us_per_day div 1000000 div 60 mod 60) @ [58]
         @ pad2 (t mod us_per_day div 1000000 mod 60) @ [90]"
  by (cases "ord2ymd (t div us_per_day + 1)") (simp add: strftime_iso_def Let_def)

lemma int_repr_pad4:
  assumes "1000 \<le> y" "y \<le> 9999"
  shows "int_repr y = pad4 y"
proof -
  define n where "n = nat y"
  have n: "1000 \<le> n" "n \<le> 9999" and y: "y = int n" using assms by (simp_all add: n_def)
  have d: "n div 10 div 10 = n div 100" "n div 100 div 10 = n div 1000"
    by (simp_all add: div_mult2_eq [symmetric])
  have "\<not> n < 10" "\<not> n div 10 < 10" "\<not> n div 100 < 10" "n div 1000 < 10"
    using n by simp_all
  then have r: "nat_repr (n div 1000) = [48 + n div 1000]"
    "nat_repr (n div 100) = nat_repr (n div 1000) @ [48 + n div 100 mod 10]"
    "nat_repr (n div 10) = nat_repr (n div 100) @ [48 + n div 10 mod 10]"
    "nat_repr n = nat_repr (n div 10) @ [48 + n mod 10]"
    using nat_repr.simps [of "n div 1000"] nat_repr.simps [of "n div 100"]
      nat_repr.simps [of "n div 10"] nat_repr.simps [of n] by (simp_all add: d)
  have "nat_repr n = [48 + n div 1000, 48 + n div 100 mod 10, 48 + n div 10 mod 10, 48 + n mod 10]"
    unfolding r by simp
  moreover have "n div 1000 mod 10 = n div 1000" using \<open>n div 1000 < 10\<close> by simp
  moreover have "nat (int n div 1000 mod 10) = n div 1000 mod 10"
    "nat (int n div 100 mod 10) = n div 100 mod 10"
    "nat (int n div 10 mod 10) = n div 10 mod 10" "nat (int n mod 10) = n mod 10"
    by (simp_all add: nat_div_distrib nat_mod_distrib)
  ultimately show ?thesis
    unfolding y int_repr_def pad4_def by simp
qed

lemma datetime_valid_ordinal:
  assumes "datetime_valid t"
  shows "1 \<le> t div us_per_day + 1" "t div us_per_day + 1 \<le> 3652059"
proof -
  from assms have "0 \<le> t" "t div us_per_day < 3652059"
    by (simp_all add: datetime_valid_def MAXORDINAL_def)
  moreover have "0 < us_per_day" by (simp add: us_per_day_def)
  ultimately show "1 \<le> t div us_per_day + 1" "t div us_per_day + 1 \<le> 3652059"
    by (simp_all add: pos_imp_zdiv_nonneg_iff)
qed

lemma four_digit_year_ordinal:
  assumes "four_digit_year t"
  shows "364878 \<le> t div us_per_day + 1"
proof -
  have "0 < us_per_day" by (simp add: us_per_day_def)
  from assms have "364877 * us_per_day \<le> t" by (simp add: four_digit_year_def)
  then have "(364877 * us_per_day) div us_per_day \<le> t div us_per_day"
    by (rule zdiv_mono1) (rule \<open>0 < us_per_day\<close>)
  then show ?thesis using \<open>0 < us_per_day\<close> by simp
qed

lemma strftime_iso_date:
  assumes "datetime_valid t" and "four_digit_year t"
  shows "\<exists>y m d. ymd2ord y m d = t div us_per_day + 1
     \<and> 1000 \<le> y \<and> y \<le> 9999 \<and> 1 \<le> m \<and> m \<le> 12 \<and> 1 \<le> d \<and> d \<le> 31
     \<and> strftime_iso t = pad4 y @ [45] @ pad2 m @ [45] @ pad2 d @ [84]
         @ pad2 (t mod us_per_day div 1000000 div 3600) @ [58]
         @ pad2 (t mod us_per_day div 1000000 div 60 mod 60) @ [58]
         @ pad2 (t mod us_per_day div 1000000 mod 60) @ [90]"
proof -
  let ?n = "t div us_per_day + 1"
  from ord2ymd_inverse_bounded [OF datetime_valid_ordinal [OF assms(1)]] obtain y m d where
    ymd: "ord2ymd ?n = (y, m, d)" "ymd2ord y m d = ?n" "y \<le> 9999" "364878 \<le> ?n \<longrightarrow> 1000 \<le> y"
      "1 \<le> m" "m \<le> 12" "1 \<le> d" "d \<le> 31"
    by (elim exE conjE) (rule that; assumption)
  from ymd(4) four_digit_year_ordinal [OF assms(2)] have y: "1000 \<le> y" by (rule mp)
  have "strftime_iso t = int_repr y @ [45] @ pad2 m @ [45] @ pad2 d @ [84]
         @ pad2 (t mod us_per_day div 1000000 div 3600) @ [58]
         @ pad2 (t mod us_per_day div 1000000 div 60 mod 60) @ [58]
         @ pad2 (t mod us_per_day div 1000000 mod 60) @ [90]"
    using strftime_iso_fields [of t] unfolding ymd(1) by blast
  then have "strftime_iso t = pad4 y @ [45] @ pad2 m @ [45] @ pad2 d @ [84]
         @ pad2 (t mod us_per_day div 1000000 div 3600) @ [58]
         @ pad2 (t mod us_per_day div 1000000 div 60 mod 60) @ [58]
         @ pad2 (t mod us_per_day div 1000000 mod 60) @ [90]"
    by (simp only: int_repr_pad4 [OF y ymd(3)])
  with ymd(2,3,5-8) y show ?thesis by (intro exI conjI)
qed

lemma strftime_iso_shape:
  assumes "datetime_valid t" and "four_digit_year t"
  shows "is_timestamp (strftime_iso t)"
proof -
  from strftime_iso_date [OF assms] obtain y m d where
    "strftime_iso t = pad4 y @ [45] @ pad2 m @ [45] @ pad2 d @ [84]
         @ pad2 (t mod us_per_day div 1000000 div 3600) @ [58]
         @ pad2 (t mod us_per_day div 1000000 div 60 mod 60) @ [58]
         @ pad2 (t mod us_per_day div 1000000 mod 60) @ [90]"
    by (elim exE conjE) (rule that; assumption)
  moreover have "\<exists>a b. pad2 n = [a, b] \<and> is_digit a \<and> is_digit b" for n
    using pad2_digits [of _ n] by (simp add: pad2_def)
  moreover have "\<exists>a b c e. pad4 n = [a, b, c, e] \<and> is_digit a \<and> is_digit b \<and> is_digit c \<and> is_digit e" for n
    using pad4_digits [of _ n] by (simp add: pad4_def)
  ultimately obtain y1 y2 y3 y4 m1 m2 d1 d2 h1 h2 i1 i2 s1 s2 where
    "strftime_iso t = [y1, y2, y3, y4, 45, m1, m2, 45, d1, d2, 84, h1, h2, 58, i1, i2, 58, s1, s2, 90]"
    "is_digit y1" "is_digit y2" "is_digit y3" "is_digit y4" "is_digit m1" "is_digit m2"
    "is_digit d1" "is_digit d2" "is_digit h1" "is_digit h2" "is_digit i1" "is_digit i2"
    "is_digit s1" "is_digit s2"
    by (metis append_Cons append_Nil)
  then show ?thesis by (simp add: is_timestamp_def)
qed

lemma mod_mult_div:
  fixes t a b :: int
  assumes "0 < a" "0 \<le> b"
  shows "t mod (a * b) div a = t div a mod b" "t div (a * b) = t div a div b"
proof -
  have "t mod (a * b) = a * (t div a mod b) + t mod a"
    using assms(2) by (rule zmod_zmult2_eq)
  moreover have "(a * (t div a mod b) + t mod a) div a = t div a mod b"
    using assms(1) by simp
  ultimately show "t mod (a * b) div a = t div a mod b" by simp
  show "t div (a * b) = t div a div b" using assms(2) by (rule zdiv_zmult2_eq)
qed

lemma seconds_split:
  fixes t :: int
  shows "t div 1000000 = (t div us_per_day) * 86400 + t mod us_per_day div 1000000"
    and "0 \<le> t mod us_per_day div 1000000" and "t mod us_per_day div 1000000 < 86400"
proof -
  have u: "us_per_day = 1000000 * 86400" by (simp add: us_per_day_def)
  have d: "t div us_per_day = t div 1000000 div 86400"
    unfolding u by (rule mod_mult_div) simp_all
  have m: "t mod us_per_day div 1000000 = t div 1000000 mod 86400"
    unfolding u by (rule mod_mult_div) simp_all
  show "t div 1000000 = (t div us_per_day) * 86400 + t mod us_per_day div 1000000"
    unfolding d m by simp
  show "0 \<le> t mod us_per_day div 1000000" "t mod us_per_day div 1000000 < 86400"
    unfolding m by simp_all
qed

lemma hms_split:
  fixes s :: int
  assumes "0 \<le> s" "s < 86400"
  shows "s div 3600 * 3600 + s div 60 mod 60 * 60 + s mod 60 = s"
    and "0 \<le> s div 3600" "s div 3600 < 100"
    and "0 \<le> s div 60 mod 60" "s div 60 mod 60 < 100"
    and "0 \<le> s mod 60" "s mod 60 < 100"
proof -
  have "s div 3600 = s div 60 div 60" by (simp add: zdiv_zmult2_eq [symmetric])
  moreover have "s div 60 = s div 60 div 60 * 60 + s div 60 mod 60" by simp
  moreover have "s = s div 60 * 60 + s mod 60" by simp
  ultimately show "s div 3600 * 3600 + s div 60 mod 60 * 60 + s mod 60 = s" by linarith
  show "0 \<le> s div 3600" using assms by simp
  show "s div 3600 < 100" using assms by simp
  show "0 \<le> s div 60 mod 60" by simp
  have "s div 60 mod 60 < 60" by simp
  then show "s div 60 mod 60 < 100" by linarith
  show "0 \<le> s mod 60" by simp
  have "s mod 60 < 60" by simp
  then show "s mod 60 < 100" by linarith
qed

lemma timestamp_parts:
  fixes c1 c2 c3 c4 c5 c6 :: nat
  assumes "length y = 4" "length m = 2" "length d = 2" "length h = 2" "length i = 2" "length s = 2"
    and "str = y @ [c1] @ m @ [c2] @ d @ [c3] @ h @ [c4] @ i @ [c5] @ s @ [c6]"
  shows "take 4 str = y" "take 2 (drop 5 str) = m" "take 2 (drop 8 str) = d"
    "take 2 (drop 11 str) = h" "take 2 (drop 14 str) = i" "take 2 (drop 17 str) = s"
  using assms by simp_all

lemma timestamp_seconds_strftime:
  assumes "datetime_valid t" and "four_digit_year t"
  shows "timestamp_seconds (strftime_iso t) = t div 1000000"
proof -
  let ?n = "t div us_per_day + 1"
  let ?s = "t mod us_per_day div 1000000"
  from strftime_iso_date [OF assms] obtain y m d where
    ymd: "ymd2ord y m d = ?n" "1000 \<le> y" "y \<le> 9999" "1 \<le> m" "m \<le> 12" "1 \<le> d" "d \<le> 31"
    and str: "strftime_iso t = pad4 y @ [45] @ pad2 m @ [45] @ pad2 d @ [84]
         @ pad2 (?s div 3600) @ [58] @ pad2 (?s div 60 mod 60) @ [58] @ pad2 (?s mod 60) @ [90]"
    by (elim exE conjE) (rule that; assumption)
  have s: "0 \<le> ?s" "?s < 86400" by (rule seconds_split)+
  note h = hms_split [OF s]
  have parts: "take 4 (strftime_iso t) = pad4 y" "take 2 (drop 5 (strftime_iso t)) = pad2 m"
    "take 2 (drop 8 (strftime_iso t)) = pad2 d"
    "take 2 (drop 11 (strftime_iso t)) = pad2 (?s div 3600)"
    "take 2 (drop 14 (strftime_iso t)) = pad2 (?s div 60 mod 60)"
    "take 2 (drop 17 (strftime_iso t)) = pad2 (?s mod 60)"
    by (rule timestamp_parts [OF _ _ _ _ _ _ str]; simp only: pad_lengths)+
  have "read_digits (pad4 y) = y" using ymd(2,3) by (intro read_digits_pad4) linarith+
  moreover have "read_digits (pad2 m) = m" using ymd(4,5) by (intro read_digits_pad2) linarith+
  moreover have "read_digits (pad2 d) = d" using ymd(6,7) by (intro read_digits_pad2) linarith+
  moreover have "read_digits (pad2 (?s div 3600)) = ?s div 3600"
    using h(2,3) by (rule read_digits_pad2)
  moreover have "read_digits (pad2 (?s div 60 mod 60)) = ?s div 60 mod 60"
    using h(4,5) by (rule read_digits_pad2)
  moreover have "read_digits (pad2 (?s mod 60)) = ?s mod 60"
    using h(6,7) by (rule read_digits_pad2)
  ultimately have "timestamp_seconds (strftime_iso t)
      = (ymd2ord y m d - 1) * 86400 + ?s div 3600 * 3600 + ?s div 60 mod 60 * 60 + ?s mod 60"
    unfolding timestamp_seconds_def parts by (simp only:)
  also have "\<dots> = (t div us_per_day) * 86400 + ?s"
  proof -
    define A B C S X where "A = ?s div 3600" and "B = ?s div 60 mod 60" and "C = ?s mod 60"
      and "S = ?s" and "X = t div us_per_day"
    have "A * 3600 + B * 60 + C = S" using h(1) unfolding A_def B_def C_def S_def .
    then have "(X + 1 - 1) * 86400 + A * 3600 + B * 60 + C = X * 86400 + S" by simp
    then show ?thesis unfolding ymd(1) A_def B_def C_def S_def X_def .
  qed
  also have "\<dots> = t div 1000000" by (rule seconds_split(1) [symmetric])
  finally show ?thesis .
qed

section \<open>The timeline a builder returns\<close>

lemma built_action_lookup:
  assumes "build_action start i at = Inr a" and "dict_keys_distinct at"
  shows "dict_lookup a k =
     (if k = ascii ''action'' then dict_lookup at k
      else case dict_lookup at k of
             Some v \<Rightarrow> Some v
           | None \<Rightarrow>
               map_of [(ascii ''id'', PStr (action_id i)),
                       (ascii ''time'', PStr (strftime_iso (start + relative_time at * 1000000))),
                       (ascii ''audioAnnounce'', PBool True),
                       (ascii ''announceActionName'', PBool True)] k)"
proof -
  from build_action_Inr [OF assms(1)] obtain kvs lbl where
    at: "at = PDict kvs" and lbl: "map_of kvs (ascii ''action'') = Some lbl" and
    a: "a = PDict (dict_update
         [(ascii ''id'', PStr (action_id i)),
          (ascii ''time'', PStr (strftime_iso (start + relative_time at * 1000000))),
          (ascii ''action'', lbl),
          (ascii ''audioAnnounce'', PBool True),
          (ascii ''announceActionName'', PBool True)]
         (filter (\<lambda>kv. fst kv \<noteq> ascii ''action'') kvs))"
    by blast
  let ?items = "filter (\<lambda>kv. fst kv \<noteq> ascii ''action'') kvs"
  from assms(2) at have d: "distinct (map fst ?items)" by (simp add: distinct_map_filter)
  show ?thesis
  proof (cases "k = ascii ''action''")
    case True
    then show ?thesis
      unfolding a using at lbl by (simp add: map_of_dict_update [OF d] map_of_filter_eq)
  next
    case False
    then have "map_of ?items k = map_of kvs k" by (rule map_of_filter_neq)
    with False show ?thesis
      unfolding a using at by (simp add: map_of_dict_update [OF d] split: option.splits)
  qed
qed

lemma action_template_ok_distinct: "action_template_ok at \<Longrightarrow> dict_keys_distinct at"
  by (cases at) simp_all

lemma built_action_fields:
  assumes "build_action start i at = Inr a" and "action_template_ok at"
  shows "dict_lookup a (ascii ''id'') = Some (PStr (action_id i))"
    and "dict_lookup a (ascii ''time'') = Some (PStr (strftime_iso (start + relative_time at * 1000000)))"
    and "dict_lookup a (ascii ''action'') = dict_lookup at (ascii ''action'')"
proof -
  from assms(2) obtain kvs where at: "at = PDict kvs" by (cases at) simp_all
  with assms(2) have n: "dict_lookup at (ascii ''id'') = None" "dict_lookup at (ascii ''time'') = None"
    by simp_all
  note l = built_action_lookup [OF assms(1) action_template_ok_distinct [OF assms(2)]]
  show "dict_lookup a (ascii ''id'') = Some (PStr (action_id i))"
    unfolding l using n by simp
  show "dict_lookup a (ascii ''time'') = Some (PStr (strftime_iso (start + relative_time at * 1000000)))"
    unfolding l using n by simp
  show "dict_lookup a (ascii ''action'') = dict_lookup at (ascii ''action'')"
    unfolding l by simp
qed

lemma built_action_relativeTime:
  assumes "build_action start i at = Inr a" and "dict_keys_distinct at"
  shows "dict_lookup a (ascii ''relativeTime'') = dict_lookup at (ascii ''relativeTime'')"
    and "dict_lookup at (ascii ''relativeTime'') \<noteq> None"
proof -
  from build_action_Inr [OF assms(1)] obtain kvs where
    at: "at = PDict kvs" and r: "map_of kvs (ascii ''relativeTime'') \<noteq> None"
    by blast
  then show "dict_lookup at (ascii ''relativeTime'') \<noteq> None" by simp
  then show "dict_lookup a (ascii ''relativeTime'') = dict_lookup at (ascii ''relativeTime'')"
    unfolding built_action_lookup [OF assms] by (auto split: option.splits)
qed

lemma map_eq_by_nth:
  assumes "length ys = length xs" and "\<And>j. j < length xs \<Longrightarrow> f (ys ! j) = g j (xs ! j)"
  shows "map f ys = map (\<lambda>j. g j (xs ! j)) [0..<length xs]"
  using assms by (intro nth_equalityI) simp_all

lemma map_eq_by_nth':
  assumes "length ys = length xs" and "\<And>j. j < length xs \<Longrightarrow> f (ys ! j) = g (xs ! j)"
  shows "map f ys = map g xs"
  using assms by (intro nth_equalityI) simp_all

lemma timeline_of_event [simp]:
  "timeline_of (PDict [(ascii ''title'', t), (ascii ''description'', d),
     (ascii ''startTime'', s), (ascii ''timezone'', z), (ascii ''timeline'', PList acts)]) = acts"
  by (simp add: timeline_of_def)

lemma generate_event_timeline:
  assumes g: "generate_event events now name m = Inr ev"
    and ok: "list_all action_template_ok (template_actions events name)"
  defines "ats \<equiv> template_actions events name"
  defines "start \<equiv> now + m * 60000000"
  shows "dict_lookup ev (ascii ''startTime'') = Some (PStr (strftime_iso start))"
    and "map (\<lambda>a. dict_lookup a (ascii ''id'')) (timeline_of ev)
           = map (\<lambda>i. Some (PStr (action_id i))) [0..<length ats]"
    and "map (\<lambda>a. dict_lookup a (ascii ''time'')) (timeline_of ev)
           = map (\<lambda>at. Some (PStr (strftime_iso (start + relative_time at * 1000000)))) ats"
    and "map (\<lambda>a. dict_lookup a (ascii ''action'')) (timeline_of ev)
           = map (\<lambda>at. dict_lookup at (ascii ''action'')) ats"
    and "minutes_in_range now m"
    and "list_all (seconds_in_range start) (map relative_time ats)"
proof -
  from generate_event_Inr [OF g] obtain title description acts where
    ev: "ev = PDict
         [(ascii ''title'', title),
          (ascii ''description'', description),
          (ascii ''startTime'', PStr (strftime_iso start)),
          (ascii ''timezone'', PStr (ascii ''America/Denver'')),
          (ascii ''timeline'', PList acts)]"
    and rng: "minutes_in_range now m"
    and len: "length acts = length ats"
    and b: "\<forall>j < length acts. build_action start j (ats ! j) = Inr (acts ! j)"
    unfolding ats_def start_def by blast
  have okj: "action_template_ok (ats ! j)" if "j < length ats" for j
    using ok that unfolding ats_def by (simp add: list_all_length)
  have bj: "build_action start j (ats ! j) = Inr (acts ! j)" if "j < length ats" for j
    using b that len by simp
  show "dict_lookup ev (ascii ''startTime'') = Some (PStr (strftime_iso start))"
    unfolding ev by simp
  show "minutes_in_range now m" by (rule rng)
  have "map (\<lambda>a. dict_lookup a (ascii ''id'')) acts
           = map (\<lambda>j. (\<lambda>j at. Some (PStr (action_id j))) j (ats ! j)) [0..<length ats]"
    using len built_action_fields(1) [OF bj okj] by (intro map_eq_by_nth) simp_all
  then show "map (\<lambda>a. dict_lookup a (ascii ''id'')) (timeline_of ev)
           = map (\<lambda>i. Some (PStr (action_id i))) [0..<length ats]"
    unfolding ev by simp
  have "map (\<lambda>a. dict_lookup a (ascii ''time'')) acts
           = map (\<lambda>at. Some (PStr (strftime_iso (start + relative_time at * 1000000)))) ats"
    using len built_action_fields(2) [OF bj okj] by (intro map_eq_by_nth') simp_all
  then show "map (\<lambda>a. dict_lookup a (ascii ''time'')) (timeline_of ev)
           = map (\<lambda>at. Some (PStr (strftime_iso (start + relative_time at * 1000000)))) ats"
    unfolding ev by simp
  have "map (\<lambda>a. dict_lookup a (ascii ''action'')) acts
           = map (\<lambda>at. dict_lookup at (ascii ''action'')) ats"
    using len built_action_fields(3) [OF bj okj] by (intro map_eq_by_nth') simp_all
  then show "map (\<lambda>a. dict_lookup a (ascii ''action'')) (timeline_of ev)
           = map (\<lambda>at. dict_lookup at (ascii ''action'')) ats"
    unfolding ev by simp
  have "seconds_in_range start (relative_time (ats ! j))" if "j < length ats" for j
    using build_action_Inr [OF bj [OF that]] by blast
  then show "list_all (seconds_in_range start) (map relative_time ats)"
    by (simp add: list_all_length)
qed

lemma dict_lookup_subscript: "dict_lookup v k = Some x \<Longrightarrow> subscript v k = Inr x"
  by (cases v) simp_all

lemma template_ok_actions:
  "template_ok events name \<Longrightarrow> list_all action_template_ok (template_actions events name)"
  unfolding template_ok_def template_actions_def
  by (auto split: option.splits pyval.splits dest!: dict_lookup_subscript)

lemma field_seconds_map:
  assumes "map (\<lambda>a. dict_lookup a k) acts = map (\<lambda>at. Some (PStr (f at))) ats"
  shows "map (field_seconds k) acts = map (\<lambda>at. timestamp_seconds (f at)) ats"
proof -
  let ?h = "\<lambda>v. case v of Some (PStr s) \<Rightarrow> timestamp_seconds s | _ \<Rightarrow> 0"
  have "map (field_seconds k) acts = map ?h (map (\<lambda>a. dict_lookup a k) acts)"
    by (simp add: field_seconds_def)
  also have "\<dots> = map ?h (map (\<lambda>at. Some (PStr (f at))) ats)" by (simp only: assms)
  also have "\<dots> = map (\<lambda>at. timestamp_seconds (f at)) ats" by simp
  finally show ?thesis .
qed

lemma offset_seconds:
  assumes "seconds_in_range start r" and "four_digit_year (start + r * 1000000)"
  shows "timestamp_seconds (strftime_iso (start + r * 1000000)) = start div 1000000 + r"
proof -
  from assms(1) have "datetime_valid (start + r * 1000000)" by (simp add: seconds_in_range_def)
  then have "timestamp_seconds (strftime_iso (start + r * 1000000)) = (start + r * 1000000) div 1000000"
    using assms(2) by (rule timestamp_seconds_strftime)
  then show ?thesis by simp
qed

lemma action_seconds_map:
  assumes "map (\<lambda>a. dict_lookup a (ascii ''time'')) acts
             = map (\<lambda>at. Some (PStr (strftime_iso (start + relative_time at * 1000000)))) ats"
    and "list_all (seconds_in_range start) (map relative_time ats)"
    and "list_all (\<lambda>r. four_digit_year (start + r * 1000000)) (map relative_time ats)"
  shows "map action_seconds acts = map (\<lambda>at. start div 1000000 + relative_time at) ats"
proof -
  have "map action_seconds acts
      = map (\<lambda>at. timestamp_seconds (strftime_iso (start + relative_time at * 1000000))) ats"
    using field_seconds_map [OF assms(1)] by (simp add: action_seconds_def [abs_def])
  also have "\<dots> = map (\<lambda>at. start div 1000000 + relative_time at) ats"
    using assms(2,3) by (intro map_cong refl offset_seconds) (simp_all add: list_all_iff)
  finally show ?thesis .
qed

lemma start_seconds_event:
  assumes "dict_lookup ev (ascii ''startTime'') = Some (PStr (strftime_iso start))"
    and "datetime_valid start" and "four_digit_year start"
  shows "start_seconds ev = start div 1000000"
  using assms by (simp add: start_seconds_def field_seconds_def timestamp_seconds_strftime)

lemma has_timestamp_map:
  assumes "map (\<lambda>a. dict_lookup a k) acts = map (\<lambda>at. Some (PStr (strftime_iso (f at)))) ats"
    and "list_all (\<lambda>at. datetime_valid (f at) \<and> four_digit_year (f at)) ats"
  shows "list_all (has_timestamp k) acts"
proof -
  have len: "length acts = length ats" using assms(1) by (metis length_map)
  moreover have "dict_lookup (acts ! j) k = Some (PStr (strftime_iso (f (ats ! j))))"
    if "j < length acts" for j
  proof -
    have "map (\<lambda>a. dict_lookup a k) acts ! j = map (\<lambda>at. Some (PStr (strftime_iso (f at)))) ats ! j"
      by (simp only: assms(1))
    with that len show ?thesis by simp
  qed
  moreover have "is_timestamp (strftime_iso (f (ats ! j)))" if "j < length acts" for j
    using assms(2) that len by (simp add: list_all_length strftime_iso_shape)
  ultimately show ?thesis
    by (simp add: list_all_length has_timestamp_def)
qed

lemma times_ok_parts:
  assumes "times_ok now m rs"
  shows "offsets_in_range now m rs" "minutes_in_range now m"
    "datetime_valid (now + m * 60000000)" "four_digit_year (now + m * 60000000)"
    "list_all (seconds_in_range (now + m * 60000000)) rs"
    "list_all (\<lambda>r. four_digit_year (now + m * 60000000 + r * 1000000)) rs"
    "list_all (\<lambda>r. datetime_valid (now + m * 60000000 + r * 1000000)
                   \<and> four_digit_year (now + m * 60000000 + r * 1000000)) rs"
  using assms
  by (simp_all add: times_ok_def offsets_in_range_def minutes_in_range_def seconds_in_range_def
      list_all_iff)

section \<open>The written-out timeline of \<open>generate_pantheon_event\<close>\<close>

lemma set_action_time_ok:
  assumes "has_relative_time a" and "seconds_in_range start (relative_time a)"
  shows "\<exists>kvs. a = PDict kvs \<and> set_action_time start a
     = Inr (PDict (dict_set kvs (ascii ''time'') (PStr (strftime_iso (start + relative_time a * 1000000)))))"
proof -
  from assms(1) obtain kvs where a: "a = PDict kvs" by (cases a) simp_all
  with assms(1) obtain r where r: "map_of kvs (ascii ''relativeTime'') = Some (PInt r)"
    by (auto split: option.splits pyval.splits)
  then have rel: "relative_time a = r" using a by simp
  with assms(2) have rng: "seconds_in_range start r" by simp
  then have "datetime_valid (start + r * 1000000)" by (simp add: seconds_in_range_def)
  then have "set_action_time start a
     = Inr (PDict (dict_set kvs (ascii ''time'') (PStr (strftime_iso (start + r * 1000000)))))"
    using a r timedelta_seconds_PInt [OF rng]
    by (simp add: set_action_time_def datetime_add_def)
  with a rel show ?thesis by simp
qed

lemma set_action_time_Inr:
  assumes "set_action_time start a = Inr a'"
  shows "\<exists>kvs. a = PDict kvs \<and> map_of kvs (ascii ''relativeTime'') \<noteq> None
     \<and> seconds_in_range start (relative_time a)
     \<and> a' = PDict (dict_set kvs (ascii ''time'') (PStr (strftime_iso (start + relative_time a * 1000000))))"
proof -
  from assms obtain rel td action_time where
    s: "subscript a (ascii ''relativeTime'') = Inr rel"
       "timedelta_seconds rel = Inr td"
       "datetime_add start td = Inr action_time"
    and c: "(case a of PDict kvs \<Rightarrow> Inr (PDict (dict_set kvs (ascii ''time'') (PStr (strftime_iso action_time))))
              | _ \<Rightarrow> Inl TypeError) = Inr a'"
    unfolding set_action_time_def and_then_eq_Inr by auto
  from s(1) obtain kvs where kvs: "a = PDict kvs" "map_of kvs (ascii ''relativeTime'') = Some rel"
    unfolding subscript_Inr by blast
  from s(2) obtain r where r: "py_number rel = Inr r" "\<bar>r * 1000000 div us_per_day\<bar> \<le> 999999999"
    "td = r * 1000000"
    unfolding timedelta_seconds_Inr by blast
  have rel: "relative_time a = r" using kvs r(1) by simp
  from s(3) r(3) have t: "datetime_valid (start + r * 1000000)" "action_time = start + r * 1000000"
    by (simp_all add: datetime_add_Inr)
  have "seconds_in_range start r" using r(2) t(1) by (simp add: seconds_in_range_def)
  with kvs rel c t(2) show ?thesis by auto
qed

lemma time_set_lookup:
  "dict_lookup (PDict (dict_set kvs (ascii ''time'') v)) (ascii ''time'') = Some v"
  "dict_lookup (PDict (dict_set kvs (ascii ''time'') v)) (ascii ''relativeTime'')
     = map_of kvs (ascii ''relativeTime'')"
  by (simp_all add: map_of_dict_set)

lemma set_action_times_Inr:
  "set_action_times start as = Inr acts \<Longrightarrow>
     length acts = length as \<and> (\<forall>j < length as. set_action_time start (as ! j) = Inr (acts ! j))"
proof (induction as arbitrary: acts)
  case Nil
  then show ?case by simp
next
  case (Cons a as)
  from Cons.prems obtain a' rest where a: "set_action_time start a = Inr a'"
    and rest: "set_action_times start as = Inr rest" and acts: "acts = a' # rest"
    by (auto simp: and_then_eq_Inr)
  from Cons.IH [OF rest] have ih: "length rest = length as"
    "\<forall>j < length as. set_action_time start (as ! j) = Inr (rest ! j)"
    by simp_all
  have "\<forall>j < length (a # as). set_action_time start ((a # as) ! j) = Inr (acts ! j)"
  proof (intro allI impI)
    fix j assume "j < length (a # as)"
    then show "set_action_time start ((a # as) ! j) = Inr (acts ! j)"
      using a ih(2) acts by (cases j) simp_all
  qed
  with ih(1) acts show ?case by simp
qed

lemma set_action_times_ok:
  assumes "list_all has_relative_time as"
    and "list_all (seconds_in_range start) (map relative_time as)"
  shows "\<exists>acts. set_action_times start as = Inr acts"
  using assms
proof (induction as)
  case Nil
  then show ?case by simp
next
  case (Cons a as)
  from Cons.prems have "has_relative_time a" "seconds_in_range start (relative_time a)" by simp_all
  from set_action_time_ok [OF this] obtain a' where "set_action_time start a = Inr a'" by blast
  moreover from Cons obtain acts where "set_action_times start as = Inr acts" by auto
  ultimately show ?case by simp
qed

lemma timeline_of_pantheon [simp]:
  "timeline_of (PDict [(ascii ''title'', t), (ascii ''description'', d),
     (ascii ''startTime'', s), (ascii ''timezone'', z), (ascii ''timeline'', PList acts)]) = acts"
  by (simp add: timeline_of_def)

lemma generate_pantheon_event_Inr:
  assumes "generate_pantheon_event now m = Inr ev"
  defines "start \<equiv> now + m * 60000000"
  shows "dict_lookup ev (ascii ''startTime'') = Some (PStr (strftime_iso start))"
    and "minutes_in_range now m"
    and "list_all (seconds_in_range start) (map relative_time pantheon_actions)"
    and "map (\<lambda>a. dict_lookup a (ascii ''time'')) (timeline_of ev)
           = map (\<lambda>a. Some (PStr (strftime_iso (start + relative_time a * 1000000)))) pantheon_actions"
    and "map (\<lambda>a. dict_lookup a (ascii ''relativeTime'')) (timeline_of ev)
           = map (\<lambda>a. dict_lookup a (ascii ''relativeTime'')) pantheon_actions"
proof -
  from assms(1) obtain td start_time acts where
    s: "timedelta_minutes m = Inr td" "datetime_add now td = Inr start_time"
       "set_action_times start_time pantheon_actions = Inr acts"
    and ev0: "ev = PDict
         [(ascii ''title'', PStr (ascii ''Pantheon Inaugural'')),
          (ascii ''description'',
             PStr (ascii ''Your AI assistants present: a demonstration of synchronized coordination.'')),
          (ascii ''startTime'', PStr (strftime_iso start_time)),
          (ascii ''timezone'', PStr (ascii ''America/Denver'')),
          (ascii ''timeline'', PList acts)]"
    unfolding generate_pantheon_event_def and_then_eq_Inr by auto
  from s(1) have td: "td = m * 60000000" "\<bar>m * 60000000 div us_per_day\<bar> \<le> 999999999"
    by (simp_all add: timedelta_minutes_def timedelta_us_Inr)
  from s(2) td(1) have st: "start_time = start" "datetime_valid (now + m * 60000000)"
    by (simp_all add: datetime_add_Inr start_def)
  show "minutes_in_range now m" using td(2) st(2) by (simp add: minutes_in_range_def)
  show "dict_lookup ev (ascii ''startTime'') = Some (PStr (strftime_iso start))"
    unfolding ev0 st(1) by simp
  from set_action_times_Inr [OF s(3)] st(1) have len: "length acts = length pantheon_actions"
    and each: "\<And>j. j < length pantheon_actions \<Longrightarrow>
        set_action_time start (pantheon_actions ! j) = Inr (acts ! j)"
    by simp_all
  have tl: "timeline_of ev = acts" unfolding ev0 by simp
  show "list_all (seconds_in_range start) (map relative_time pantheon_actions)"
    using set_action_time_Inr [OF each] by (auto simp: list_all_length)
  show "map (\<lambda>a. dict_lookup a (ascii ''time'')) (timeline_of ev)
           = map (\<lambda>a. Some (PStr (strftime_iso (start + relative_time a * 1000000)))) pantheon_actions"
    unfolding tl
  proof (rule map_eq_by_nth' [OF len])
    fix j assume "j < length pantheon_actions"
    from set_action_time_Inr [OF each [OF this]]
    show "dict_lookup (acts ! j) (ascii ''time'')
        = Some (PStr (strftime_iso (start + relative_time (pantheon_actions ! j) * 1000000)))"
      by (auto simp: map_of_dict_set)
  qed
  show "map (\<lambda>a. dict_lookup a (ascii ''relativeTime'')) (timeline_of ev)
           = map (\<lambda>a. dict_lookup a (ascii ''relativeTime'')) pantheon_actions"
    unfolding tl
  proof (rule map_eq_by_nth' [OF len])
    fix j assume "j < length pantheon_actions"
    from set_action_time_Inr [OF each [OF this]]
    show "dict_lookup (acts ! j) (ascii ''relativeTime'')
        = dict_lookup (pantheon_actions ! j) (ascii ''relativeTime'')"
      by (auto simp: map_of_dict_set)
  qed
qed

lemma generate_pantheon_event_ok:
  assumes "offsets_in_range now m (map relative_time pantheon_actions)"
    and "list_all has_relative_time pantheon_actions"
  shows "\<exists>ev. generate_pantheon_event now m = Inr ev"
proof -
  from assms(1) have m: "minutes_in_range now m"
    and s: "list_all (seconds_in_range (now + m * 60000000)) (map relative_time pantheon_actions)"
    by (simp_all add: offsets_in_range_def)
  from set_action_times_ok [OF assms(2) s] obtain acts where
    "set_action_times (now + m * 60000000) pantheon_actions = Inr acts" by blast
  then show ?thesis
    using m by (simp add: generate_pantheon_event_def timedelta_minutes_def timedelta_us_def
        datetime_add_def minutes_in_range_def)
qed

section \<open>The six actions of \<open>generate_test_event\<close>\<close>

lemma test_action_Inr:
  "test_action st iv i ts = Inr a \<longleftrightarrow>
     (seconds_in_range st (int i * iv) \<and>
      a = PDict
         [(ascii ''id'', PStr (action_id i)),
          (ascii ''time'', PStr (strftime_iso (st + int i * iv * 1000000))),
          (ascii ''action'', PStr (fst ts)),
          (ascii ''audioAnnounce'', PBool True),
          (ascii ''announceActionName'', PBool True),
          (ascii ''style'', PStr (snd ts)),
          (ascii ''hapticPattern'',
             PStr (if snd ts = ascii ''normal'' then ascii ''double'' else ascii ''triple''))])"
  unfolding test_action_def and_then_eq_Inr timedelta_us_Inr datetime_add_Inr seconds_in_range_def
  by auto

lemma test_action_fields:
  assumes "test_action st iv i ts = Inr a"
  shows "dict_lookup a (ascii ''id'') = Some (PStr (action_id i))"
    and "dict_lookup a (ascii ''time'') = Some (PStr (strftime_iso (st + int i * iv * 1000000)))"
    and "dict_lookup a (ascii ''action'') = Some (PStr (fst ts))"
    and "seconds_in_range st (int i * iv)"
  using assms unfolding test_action_Inr by simp_all

lemma test_actions_Inr:
  "test_actions st iv i xs = Inr acts \<Longrightarrow>
     length acts = length xs
     \<and> (\<forall>j < length xs. test_action st iv (i + j) (xs ! j) = Inr (acts ! j))"
proof (induction xs arbitrary: i acts)
  case Nil
  then show ?case by simp
next
  case (Cons x xs)
  from Cons.prems obtain a rest where a: "test_action st iv i x = Inr a"
    and rest: "test_actions st iv (Suc i) xs = Inr rest" and acts: "acts = a # rest"
    by (auto simp: and_then_eq_Inr)
  from Cons.IH [OF rest] have ih: "length rest = length xs"
    "\<forall>j < length xs. test_action st iv (Suc i + j) (xs ! j) = Inr (rest ! j)"
    by simp_all
  have "\<forall>j < length (x # xs). test_action st iv (i + j) ((x # xs) ! j) = Inr (acts ! j)"
  proof (intro allI impI)
    fix j assume "j < length (x # xs)"
    then show "test_action st iv (i + j) ((x # xs) ! j) = Inr (acts ! j)"
      using a ih(2) acts by (cases j) simp_all
  qed
  with ih(1) acts show ?case by simp
qed

lemma test_actions_ok:
  assumes "list_all (seconds_in_range st) (map (\<lambda>j. int j * iv) [i..<i + length xs])"
  shows "\<exists>acts. test_actions st iv i xs = Inr acts"
  using assms
proof (induction xs arbitrary: i)
  case Nil
  then show ?case by simp
next
  case (Cons x xs)
  have e: "i + length (x # xs) = Suc i + length xs" by simp
  have u: "[i..<i + length (x # xs)] = i # [Suc i..<Suc i + length xs]"
    unfolding e by (rule upt_conv_Cons) simp
  from Cons.prems have h: "seconds_in_range st (int i * iv)"
    and t: "list_all (seconds_in_range st) (map (\<lambda>j. int j * iv) [Suc i..<Suc i + length xs])"
    unfolding u by simp_all
  from h obtain a where "test_action st iv i x = Inr a"
    unfolding test_action_Inr by blast
  moreover from Cons.IH [OF t] obtain acts where "test_actions st iv (Suc i) xs = Inr acts"
    by blast
  ultimately show ?case by simp
qed

lemma generate_test_event_ok:
  assumes "offsets_in_range now m (map (\<lambda>j. int j * iv) [0..<length action_texts])"
  shows "\<exists>ev. generate_test_event now m iv = Inr ev"
proof -
  from assms have m: "minutes_in_range now m"
    and s: "list_all (seconds_in_range (now + m * 60000000))
               (map (\<lambda>j. int j * iv) [0..<0 + length action_texts])"
    by (simp_all add: offsets_in_range_def)
  from test_actions_ok [OF s] obtain acts where
    "test_actions (now + m * 60000000) iv 0 action_texts = Inr acts" by blast
  then show ?thesis
    using m by (simp add: generate_test_event_def timedelta_minutes_def timedelta_us_def
        datetime_add_def minutes_in_range_def)
qed

lemma generate_test_event_Inr:
  assumes "generate_test_event now m iv = Inr ev"
  defines "start \<equiv> now + m * 60000000"
  shows "dict_lookup ev (ascii ''startTime'') = Some (PStr (strftime_iso start))"
    and "minutes_in_range now m"
    and "map (\<lambda>a. dict_lookup a (ascii ''id'')) (timeline_of ev)
           = map (\<lambda>i. Some (PStr (action_id i))) [0..<length action_texts]"
    and "map (\<lambda>a. dict_lookup a (ascii ''time'')) (timeline_of ev)
           = map (\<lambda>i. Some (PStr (strftime_iso (start + int i * iv * 1000000))))
               [0..<length action_texts]"
    and "map (\<lambda>a. dict_lookup a (ascii ''action'')) (timeline_of ev)
           = map (\<lambda>ts. Some (PStr (fst ts))) action_texts"
proof -
  from assms(1) obtain td start_time acts where
    s: "timedelta_minutes m = Inr td" "datetime_add now td = Inr start_time"
       "test_actions start_time iv 0 action_texts = Inr acts"
    and ev0: "ev = PDict
         [(ascii ''title'', PStr (ascii ''Test Flash Mob'')),
          (ascii ''description'', PStr (ascii ''A test event for Conductor Mobile development'')),
          (ascii ''startTime'', PStr (strftime_iso start_time)),
          (ascii ''timezone'', PStr (ascii ''America/New_York'')),
          (ascii ''timeline'', PList acts)]"
    unfolding generate_test_event_def and_then_eq_Inr by auto
  from s(1) have td: "td = m * 60000000" "\<bar>m * 60000000 div us_per_day\<bar> \<le> 999999999"
    by (simp_all add: timedelta_minutes_def timedelta_us_Inr)
  from s(2) td(1) have st: "start_time = start" "datetime_valid (now + m * 60000000)"
    by (simp_all add: datetime_add_Inr start_def)
  show "minutes_in_range now m" using td(2) st(2) by (simp add: minutes_in_range_def)
  show "dict_lookup ev (ascii ''startTime'') = Some (PStr (strftime_iso start))"
    unfolding ev0 st(1) by simp
  from test_actions_Inr [OF s(3)] st(1) have len: "length acts = length action_texts"
    and each: "\<And>j. j < length action_texts \<Longrightarrow>
        test_action start iv j (action_texts ! j) = Inr (acts ! j)"
    by simp_all
  have tl: "timeline_of ev = acts" unfolding ev0 by simp
  have "map (\<lambda>a. dict_lookup a (ascii ''id'')) acts
      = map (\<lambda>j. (\<lambda>j ts. Some (PStr (action_id j))) j (action_texts ! j)) [0..<length action_texts]"
    using len test_action_fields(1) [OF each] by (intro map_eq_by_nth) simp_all
  then show "map (\<lambda>a. dict_lookup a (ascii ''id'')) (timeline_of ev)
           = map (\<lambda>i. Some (PStr (action_id i))) [0..<length action_texts]"
    unfolding tl by simp
  have "map (\<lambda>a. dict_lookup a (ascii ''time'')) acts
      = map (\<lambda>j. (\<lambda>j ts. Some (PStr (strftime_iso (start + int j * iv * 1000000)))) j (action_texts ! j))
          [0..<length action_texts]"
    using len test_action_fields(2) [OF each] by (intro map_eq_by_nth) simp_all
  then show "map (\<lambda>a. dict_lookup a (ascii ''time'')) (timeline_of ev)
           = map (\<lambda>i. Some (PStr (strftime_iso (start + int i * iv * 1000000))))
               [0..<length action_texts]"
    unfolding tl by simp
  have "map (\<lambda>a. dict_lookup a (ascii ''action'')) acts = map (\<lambda>ts. Some (PStr (fst ts))) action_texts"
    using len test_action_fields(3) [OF each] by (intro map_eq_by_nth') simp_all
  then show "map (\<lambda>a. dict_lookup a (ascii ''action'')) (timeline_of ev)
           = map (\<lambda>ts. Some (PStr (fst ts))) action_texts"
    unfolding tl by simp
qed

section \<open>What the builders return\<close>

lemma generate_event_built:
  assumes tpl: "template_ok events name"
    and tok: "times_ok now m (map relative_time (template_actions events name))"
  shows "\<exists>ev. generate_event events now name m = Inr ev
     \<and> dict_lookup ev (ascii ''startTime'') = Some (PStr (strftime_iso (now + m * 60000000)))
     \<and> map (\<lambda>a. dict_lookup a (ascii ''id'')) (timeline_of ev)
         = map (\<lambda>i. Some (PStr (ascii ''action-'' @ int_repr (int i + 1))))
             [0..<length (template_actions events name)]
     \<and> map (\<lambda>a. dict_lookup a (ascii ''time'')) (timeline_of ev)
         = map (\<lambda>at. Some (PStr (strftime_iso (now + m * 60000000 + relative_time at * 1000000))))
             (template_actions events name)
     \<and> map (\<lambda>a. dict_lookup a (ascii ''action'')) (timeline_of ev)
         = map (\<lambda>at. dict_lookup at (ascii ''action'')) (template_actions events name)
     \<and> has_timestamp (ascii ''startTime'') ev
     \<and> list_all (has_timestamp (ascii ''time'')) (timeline_of ev)
     \<and> map action_seconds (timeline_of ev)
         = map (\<lambda>at. start_seconds ev + relative_time at) (template_actions events name)"
proof -
  let ?ats = "template_actions events name"
  let ?start = "now + m * 60000000"
  note r = times_ok_parts [OF tok]
  from generate_event_ok [OF tpl r(1)] obtain ev where ev: "generate_event events now name m = Inr ev"
    by blast
  note t = generate_event_timeline [OF ev template_ok_actions [OF tpl]]
  have s: "start_seconds ev = ?start div 1000000"
    using t(1) r(3,4) by (rule start_seconds_event)
  have fd: "list_all (\<lambda>r. four_digit_year (?start + r * 1000000)) (map relative_time ?ats)"
    by (rule r(6))
  have "map action_seconds (timeline_of ev) = map (\<lambda>at. start_seconds ev + relative_time at) ?ats"
    unfolding s using t(3) t(6) fd by (rule action_seconds_map)
  moreover have "has_timestamp (ascii ''startTime'') ev"
    using t(1) r(3,4) by (simp add: has_timestamp_def strftime_iso_shape)
  moreover have "list_all (has_timestamp (ascii ''time'')) (timeline_of ev)"
    using t(3)
  proof (rule has_timestamp_map)
    show "list_all (\<lambda>at. datetime_valid (?start + relative_time at * 1000000)
              \<and> four_digit_year (?start + relative_time at * 1000000)) ?ats"
      using r(7) by (simp add: list_all_iff)
  qed
  ultimately show ?thesis
    using ev t(1) t(2) [unfolded action_id_def] t(3) t(4) by (intro exI [of _ ev] conjI)
qed

lemma generate_test_event_built:
  assumes tok: "times_ok now m (map (\<lambda>i. int i * iv) [0..<length action_texts])"
  shows "\<exists>ev. generate_test_event now m iv = Inr ev
     \<and> dict_lookup ev (ascii ''startTime'') = Some (PStr (strftime_iso (now + m * 60000000)))
     \<and> map (\<lambda>a. dict_lookup a (ascii ''id'')) (timeline_of ev)
         = map (\<lambda>i. Some (PStr (ascii ''action-'' @ int_repr (int i + 1))))
             [0..<length action_texts]
     \<and> map (\<lambda>a. dict_lookup a (ascii ''time'')) (timeline_of ev)
         = map (\<lambda>i. Some (PStr (strftime_iso (now + m * 60000000 + int i * iv * 1000000))))
             [0..<length action_texts]
     \<and> map (\<lambda>a. dict_lookup a (ascii ''action'')) (timeline_of ev)
         = map (\<lambda>ts. Some (PStr (fst ts))) action_texts
     \<and> has_timestamp (ascii ''startTime'') ev
     \<and> list_all (has_timestamp (ascii ''time'')) (timeline_of ev)
     \<and> map action_seconds (timeline_of ev)
         = map (\<lambda>i. start_seconds ev + int i * iv) [0..<length action_texts]"
proof -
  let ?is = "[0..<length action_texts]"
  let ?start = "now + m * 60000000"
  note r = times_ok_parts [OF tok]
  from generate_test_event_ok [OF r(1)] obtain ev where ev: "generate_test_event now m iv = Inr ev"
    by blast
  note t = generate_test_event_Inr [OF ev]
  have s: "start_seconds ev = ?start div 1000000"
    using t(1) r(3,4) by (rule start_seconds_event)
  have "map (field_seconds (ascii ''time'')) (timeline_of ev)
      = map (\<lambda>i. timestamp_seconds (strftime_iso (?start + int i * iv * 1000000))) ?is"
    using t(4) by (rule field_seconds_map)
  also have "\<dots> = map (\<lambda>i. ?start div 1000000 + int i * iv) ?is"
    using r(5,6) by (intro map_cong refl offset_seconds) (simp_all add: list_all_iff)
  finally have "map action_seconds (timeline_of ev) = map (\<lambda>i. start_seconds ev + int i * iv) ?is"
    unfolding s by (simp add: action_seconds_def [abs_def])
  moreover have "has_timestamp (ascii ''startTime'') ev"
    using t(1) r(3,4) by (simp add: has_timestamp_def strftime_iso_shape)
  moreover have "list_all (has_timestamp (ascii ''time'')) (timeline_of ev)"
    using t(4)
  proof (rule has_timestamp_map)
    show "list_all (\<lambda>i. datetime_valid (?start + int i * iv * 1000000)
              \<and> four_digit_year (?start + int i * iv * 1000000)) ?is"
      using r(7) by (simp add: list_all_iff)
  qed
  ultimately show ?thesis
    using ev t(1) t(3) [unfolded action_id_def] t(4) t(5) by (intro exI [of _ ev] conjI)
qed

lemma pantheon_relative_times: "map relative_time pantheon_actions = [0, 20, 40, 60, 80]"
  by (simp add: pantheon_actions_def)

lemma pantheon_has_relative_time: "list_all has_relative_time pantheon_actions"
  by (simp add: pantheon_actions_def)




section \<open>Members of the JSON text\<close>

lemma occurs_in_refl: "occurs_in xs xs"
  unfolding occurs_in_def by (metis append_Nil append_Nil2)

lemma occurs_in_trans: "occurs_in xs ys \<Longrightarrow> occurs_in ys zs \<Longrightarrow> occurs_in xs zs"
  unfolding occurs_in_def by (metis append.assoc)

lemma occurs_in_append: "occurs_in xs ys \<Longrightarrow> occurs_in xs (pre @ ys @ post)"
  unfolding occurs_in_def by (metis append.assoc)

lemma occurs_in_py_join: "x \<in> set xs \<Longrightarrow> occurs_in x (py_join sep xs)"
proof (induction sep xs rule: py_join.induct)
  case (1 sep)
  then show ?case by simp
next
  case (2 sep y)
  then show ?case by (simp add: occurs_in_refl)
next
  case (3 sep y z zs)
  show ?case
  proof (cases "x = y")
    case True
    have "occurs_in y ([] @ y @ (sep @ py_join sep (z # zs)))"
      by (rule occurs_in_append) (rule occurs_in_refl)
    with True show ?thesis by simp
  next
    case False
    with "3.prems" have "x \<in> set (z # zs)" by simp
    then have "occurs_in x (py_join sep (z # zs))" by (rule "3.IH")
    then have "occurs_in x ((y @ sep) @ py_join sep (z # zs) @ [])" by (rule occurs_in_append)
    then show ?thesis by simp
  qed
qed

lemma occurs_in_json_list:
  assumes "x \<in> set xs"
  shows "occurs_in (json_dumps isep ksep x) (json_dumps isep ksep (PList xs))"
proof -
  have "json_dumps isep ksep x \<in> set (map (json_dumps isep ksep) xs)" using assms by simp
  then have "occurs_in (json_dumps isep ksep x) (py_join isep (map (json_dumps isep ksep) xs))"
    by (rule occurs_in_py_join)
  then have "occurs_in (json_dumps isep ksep x)
      ([91] @ py_join isep (map (json_dumps isep ksep) xs) @ [93])"
    by (rule occurs_in_append)
  then show ?thesis by simp
qed

lemma occurs_in_json_dict:
  assumes "(k, v) \<in> set kvs"
  shows "occurs_in (py_encode_basestring_ascii k @ ksep @ json_dumps isep ksep v)
           (json_dumps isep ksep (PDict kvs))"
proof -
  let ?f = "\<lambda>kv. py_encode_basestring_ascii (fst kv) @ ksep @ json_dumps isep ksep (snd kv)"
  have "?f (k, v) \<in> ?f ` set kvs" using assms by (rule imageI)
  then have "?f (k, v) \<in> set (map ?f kvs)" by (simp only: set_map)
  then have "occurs_in (?f (k, v)) (py_join isep (map ?f kvs))" by (rule occurs_in_py_join)
  then have "occurs_in (?f (k, v)) ([123] @ py_join isep (map ?f kvs) @ [125])"
    by (rule occurs_in_append)
  then show ?thesis by simp
qed

lemma member_occurs:
  assumes "dict_lookup d k = Some v"
  shows "occurs_in (member_text k v) (json_dumps (ascii '','') (ascii '':'') d)"
    and "occurs_in (json_dumps (ascii '','') (ascii '':'') v) (json_dumps (ascii '','') (ascii '':'') d)"
proof -
  from assms obtain kvs where d: "d = PDict kvs" and "map_of kvs k = Some v"
    by (cases d) simp_all
  then have "(k, v) \<in> set kvs" by (simp add: map_of_SomeD)
  then show m: "occurs_in (member_text k v) (json_dumps (ascii '','') (ascii '':'') d)"
    unfolding d member_text_def by (rule occurs_in_json_dict)
  have "occurs_in (json_dumps (ascii '','') (ascii '':'') v)
      ((py_encode_basestring_ascii k @ ascii '':'') @ json_dumps (ascii '','') (ascii '':'') v @ [])"
    by (rule occurs_in_append) (rule occurs_in_refl)
  then have "occurs_in (json_dumps (ascii '','') (ascii '':'') v) (member_text k v)"
    by (simp add: member_text_def)
  then show "occurs_in (json_dumps (ascii '','') (ascii '':'') v) (json_dumps (ascii '','') (ascii '':'') d)"
    using m by (rule occurs_in_trans)
qed

lemma event_carries_relative_time:
  assumes "dict_lookup ev (ascii ''timeline'') = Some (PList acts)"
    and "a \<in> set acts" and "dict_lookup a (ascii ''relativeTime'') \<noteq> None"
  shows "carries_relative_time ev a"
proof -
  from assms(3) obtain v where v: "dict_lookup a (ascii ''relativeTime'') = Some v" by blast
  have o1: "occurs_in (member_text (ascii ''relativeTime'') v) (json_dumps (ascii '','') (ascii '':'') a)"
    using v by (rule member_occurs)
  have o2: "occurs_in (json_dumps (ascii '','') (ascii '':'') a)
      (json_dumps (ascii '','') (ascii '':'') (PList acts))"
    using assms(2) by (rule occurs_in_json_list)
  have o3: "occurs_in (json_dumps (ascii '','') (ascii '':'') (PList acts))
      (json_dumps (ascii '','') (ascii '':'') ev)"
    using assms(1) by (rule member_occurs)
  from occurs_in_trans [OF occurs_in_trans [OF o1 o2] o3]
  show ?thesis by (simp add: carries_relative_time_def v)
qed

section \<open>The \<open>relativeTime\<close> key of a built action\<close>

lemma keeps_relative_time:
  assumes tl: "dict_lookup ev (ascii ''timeline'') = Some (PList (timeline_of ev))"
    and m: "map (\<lambda>a. dict_lookup a (ascii ''relativeTime'')) (timeline_of ev)
              = map (\<lambda>at. dict_lookup at (ascii ''relativeTime'')) ats"
    and n: "list_all (\<lambda>at. dict_lookup at (ascii ''relativeTime'') \<noteq> None) ats"
  shows "list_all (\<lambda>a. dict_lookup a (ascii ''relativeTime'') \<noteq> None) (timeline_of ev)"
    and "list_all (carries_relative_time ev) (timeline_of ev)"
proof -
  have len: "length (timeline_of ev) = length ats" using m by (metis length_map)
  have "dict_lookup (timeline_of ev ! j) (ascii ''relativeTime'') \<noteq> None"
    if "j < length (timeline_of ev)" for j
  proof -
    have "map (\<lambda>a. dict_lookup a (ascii ''relativeTime'')) (timeline_of ev) ! j
        = map (\<lambda>at. dict_lookup at (ascii ''relativeTime'')) ats ! j"
      by (simp only: m)
    with that len have "dict_lookup (timeline_of ev ! j) (ascii ''relativeTime'')
        = dict_lookup (ats ! j) (ascii ''relativeTime'')" by simp
    with n that len show ?thesis by (simp add: list_all_length)
  qed
  then show a: "list_all (\<lambda>a. dict_lookup a (ascii ''relativeTime'') \<noteq> None) (timeline_of ev)"
    by (simp add: list_all_length)
  show "list_all (carries_relative_time ev) (timeline_of ev)"
    unfolding list_all_iff
  proof
    fix a assume "a \<in> set (timeline_of ev)"
    moreover from this a have "dict_lookup a (ascii ''relativeTime'') \<noteq> None"
      by (simp add: list_all_iff)
    ultimately show "carries_relative_time ev a"
      using tl by (intro event_carries_relative_time)
  qed
qed

lemma generate_event_relative_times:
  assumes g: "generate_event events now name m = Inr ev"
    and d: "list_all dict_keys_distinct (template_actions events name)"
  shows "dict_lookup ev (ascii ''timeline'') = Some (PList (timeline_of ev))"
    and "map (\<lambda>a. dict_lookup a (ascii ''relativeTime'')) (timeline_of ev)
           = map (\<lambda>at. dict_lookup at (ascii ''relativeTime'')) (template_actions events name)"
    and "list_all (\<lambda>at. dict_lookup at (ascii ''relativeTime'') \<noteq> None) (template_actions events name)"
proof -
  let ?ats = "template_actions events name"
  from generate_event_Inr [OF g] obtain title description acts where
    ev: "ev = PDict
         [(ascii ''title'', title),
          (ascii ''description'', description),
          (ascii ''startTime'', PStr (strftime_iso (now + m * 60000000))),
          (ascii ''timezone'', PStr (ascii ''America/Denver'')),
          (ascii ''timeline'', PList acts)]"
    and len: "length acts = length ?ats"
    and b: "\<forall>j < length acts. build_action (now + m * 60000000) j (?ats ! j) = Inr (acts ! j)"
    by blast
  have bj: "build_action (now + m * 60000000) j (?ats ! j) = Inr (acts ! j)" if "j < length ?ats" for j
    using b that len by simp
  have dj: "dict_keys_distinct (?ats ! j)" if "j < length ?ats" for j
    using d that by (simp add: list_all_length)
  show "dict_lookup ev (ascii ''timeline'') = Some (PList (timeline_of ev))"
    unfolding ev by simp
  have "map (\<lambda>a. dict_lookup a (ascii ''relativeTime'')) acts
           = map (\<lambda>at. dict_lookup at (ascii ''relativeTime'')) ?ats"
    using len built_action_relativeTime(1) [OF bj dj] by (intro map_eq_by_nth') simp_all
  then show "map (\<lambda>a. dict_lookup a (ascii ''relativeTime'')) (timeline_of ev)
           = map (\<lambda>at. dict_lookup at (ascii ''relativeTime'')) ?ats"
    unfolding ev by simp
  show "list_all (\<lambda>at. dict_lookup at (ascii ''relativeTime'') \<noteq> None) ?ats"
    using built_action_relativeTime(2) [OF bj dj] by (simp add: list_all_length)
qed

lemma pantheon_relative_time_fields:
  "map (\<lambda>a. dict_lookup a (ascii ''relativeTime'')) pantheon_actions
     = map (\<lambda>r. Some (PInt r)) [0, 20, 40, 60, 80]"
  by (simp add: pantheon_actions_def)

lemma generate_pantheon_event_timeline:
  assumes "generate_pantheon_event now m = Inr ev"
  shows "dict_lookup ev (ascii ''timeline'') = Some (PList (timeline_of ev))"
proof -
  from assms obtain s acts where "ev = PDict
         [(ascii ''title'', PStr (ascii ''Pantheon Inaugural'')),
          (ascii ''description'',
             PStr (ascii ''Your AI assistants present: a demonstration of synchronized coordination.'')),
          (ascii ''startTime'', PStr s),
          (ascii ''timezone'', PStr (ascii ''America/Denver'')),
          (ascii ''timeline'', PList acts)]"
    unfolding generate_pantheon_event_def and_then_eq_Inr by auto
  then show ?thesis by simp
qed


section \<open>The ids of a timeline are distinct\<close>

lemma read_digits_snoc: "read_digits (xs @ [c]) = read_digits xs * 10 + digit_val c"
  by (simp add: read_digits_def)

lemma read_digits_nat_repr: "read_digits (nat_repr n) = int n"
proof (induction n rule: nat_repr.induct)
  case (1 n)
  show ?case
  proof (cases "n < 10")
    case True
    then show ?thesis by (simp add: nat_repr.simps [of n] read_digits_def digit_val_def)
  next
    case False
    then have "read_digits (nat_repr n) = read_digits (nat_repr (n div 10)) * 10 + digit_val (48 + n mod 10)"
      by (simp add: nat_repr.simps [of n] read_digits_snoc)
    also have "\<dots> = int (n div 10) * 10 + int (n mod 10)"
      using "1.IH" False by (simp add: digit_val_def)
    also have "\<dots> = int n" by (simp add: zdiv_int zmod_int)
    finally show ?thesis .
  qed
qed

lemma action_id_inj: "action_id i = action_id j \<Longrightarrow> i = j"
proof -
  assume "action_id i = action_id j"
  then have "nat_repr (nat (int i + 1)) = nat_repr (nat (int j + 1))"
    by (simp add: action_id_def int_repr_def)
  then have "read_digits (nat_repr (nat (int i + 1))) = read_digits (nat_repr (nat (int j + 1)))"
    by simp
  then show "i = j" by (simp add: read_digits_nat_repr)
qed

lemma distinct_action_ids: "distinct (map (\<lambda>i. Some (PStr (action_id i))) [0..<n])"
  by (simp add: distinct_map inj_on_def action_id_inj)

lemma before_start_map:
  fixes S :: int
  assumes "map f ys = map (\<lambda>x. S + g x) xs"
  shows "map (\<lambda>y. f y < S) ys = map (\<lambda>x. g x < 0) xs"
proof -
  have "map (\<lambda>y. f y < S) ys = map (\<lambda>v. v < S) (map f ys)" by simp
  also have "\<dots> = map (\<lambda>v. v < S) (map (\<lambda>x. S + g x) xs)" by (simp only: assms)
  also have "\<dots> = map (\<lambda>x. g x < 0) xs" by simp
  finally show ?thesis .
qed


section \<open>The decoder: base64\<close>

lemma b64_index_char: "n < 64 \<Longrightarrow> b64_index (unat (b64_char n)) = Some n"
  by (simp add: b64_char_cases b64_index_def) arith

lemma b64_char_not_pad: "n < 64 \<Longrightarrow> unat (b64_char n) \<noteq> 61"
  by (simp add: b64_char_cases) arith

lemma byte_of_unat: "(of_nat (unat (a :: byte)) :: byte) = a"
  by simp

lemma b64_group_full:
  fixes a b c :: byte
  shows "b64_group (unat (b64_char (unat a div 4))) (unat (b64_char (unat a mod 4 * 16 + unat b div 16)))
           (unat (b64_char (unat b mod 16 * 4 + unat c div 64))) (unat (b64_char (unat c mod 64)))
         = Some [a, b, c]"
proof -
  have a: "unat a div 4 * 4 + (unat a mod 4 * 16 + unat b div 16) div 16 = unat a"
    using unat_byte_bound [of b] by simp
  have b: "(unat a mod 4 * 16 + unat b div 16) mod 16 * 16 + (unat b mod 16 * 4 + unat c div 64) div 4 = unat b"
    using unat_byte_bound [of b] unat_byte_bound [of c] by simp
  have c: "(unat b mod 16 * 4 + unat c div 64) mod 4 * 64 + unat c mod 64 = unat c"
    using unat_byte_bound [of c] by simp
  show ?thesis
    unfolding b64_group_def
    by (simp only: b64_index_char sextet_bounds option.case a b c byte_of_unat b64_char_not_pad if_False simp_thms)
qed

lemma b64_group_two:
  fixes a b :: byte
  shows "b64_group (unat (b64_char (unat a div 4))) (unat (b64_char (unat a mod 4 * 16 + unat b div 16)))
           (unat (b64_char (unat b mod 16 * 4))) 61
         = Some [a, b]"
proof -
  have a: "unat a div 4 * 4 + (unat a mod 4 * 16 + unat b div 16) div 16 = unat a"
    using unat_byte_bound [of b] by simp
  have b: "(unat a mod 4 * 16 + unat b div 16) mod 16 * 16 + (unat b mod 16 * 4) div 4 = unat b"
    using unat_byte_bound [of b] by simp
  show ?thesis
    unfolding b64_group_def
    by (simp only: b64_index_char sextet_bounds option.case a b byte_of_unat b64_char_not_pad if_False if_True simp_thms)
qed

lemma b64_group_one:
  fixes a :: byte
  shows "b64_group (unat (b64_char (unat a div 4))) (unat (b64_char (unat a mod 4 * 16))) 61 61
         = Some [a]"
proof -
  have a: "unat a div 4 * 4 + (unat a mod 4 * 16) div 16 = unat a"
    by simp
  show ?thesis
    unfolding b64_group_def
    by (simp only: b64_index_char sextet_bounds option.case a byte_of_unat if_True simp_thms)
qed

lemma b64decode_b64encode: "b64decode (map unat (b64encode bs)) = Some bs"
proof (induction bs rule: b64encode.induct)
  case 1
  show ?case by simp
next
  case (2 a)
  show ?case using b64_group_one [of a] by simp
next
  case (3 a b)
  show ?case using b64_group_two [of a b] by simp
next
  case (4 a b c rest)
  show ?case using b64_group_full [of a b c] 4 by simp
qed

lemma undo_replace_b64:
  "\<forall>c \<in> set xs. is_b64 c \<Longrightarrow> replace_char 95 47 (replace_char 45 43 (replace_char 47 95 (replace_char 43 45 xs))) = xs"
  by (induction xs) (auto simp: replace_char_def is_b64_def)

lemma token_restore:
  "undo_url_safe (add_padding (url_safe_of (map unat (b64encode bs)))) = map unat (b64encode bs)"
proof -
  obtain body where body: "b64encode bs = body @ replicate (b64_pad (length bs)) 61"
    "\<forall>c \<in> set body. is_b64 (unat c)" "length body = b64_body_len (length bs)"
    using b64encode_shape [of bs] by blast
  let ?tok = "replace_char 47 95 (replace_char 43 45 (map unat body))"
  have eq: "replace_char 47 95 (replace_char 43 45 (map unat (b64encode bs)))
          = ?tok @ replicate (b64_pad (length bs)) 61"
    by (simp add: body(1) replace_char_append replace_char_replicate)
  have safe: "\<forall>x \<in> set ?tok. x \<in> url_safe_alphabet"
    using body(2) by (intro replace_b64_safe) simp
  then have "\<forall>x \<in> set ?tok. x \<noteq> 61"
    by (auto simp: url_safe_alphabet_iff)
  with eq have tok: "url_safe_of (map unat (b64encode bs)) = ?tok"
    by (simp add: url_safe_of_def rstrip_append_replicate)
  have len: "length ?tok = b64_body_len (length bs)"
    using body(3) by (simp add: replace_char_def)
  have "add_padding ?tok = ?tok @ replicate (b64_pad (length bs)) 61"
    unfolding add_padding_def len b64_pad_formula ..
  moreover have "replace_char 95 47 (replace_char 45 43 ?tok) = map unat body"
    using body(2) by (intro undo_replace_b64) simp
  ultimately have "undo_url_safe (add_padding ?tok) = map unat body @ replicate (b64_pad (length bs)) 61"
    by (simp add: undo_url_safe_def replace_char_append replace_char_replicate)
  then show ?thesis unfolding tok by (simp add: body(1))
qed

lemma b64decode_token:
  "b64decode (undo_url_safe (add_padding (url_safe_of (map unat (b64encode bs))))) = Some bs"
  by (simp only: token_restore b64decode_b64encode)

lemma url_safe_of_b64encode_inj:
  assumes "url_safe_of (map unat (b64encode bs)) = url_safe_of (map unat (b64encode bs'))"
  shows "bs = bs'"
proof -
  have "Some bs = b64decode (undo_url_safe (add_padding (url_safe_of (map unat (b64encode bs)))))"
    by (simp only: b64decode_token)
  also have "\<dots> = Some bs'"
    unfolding assms by (rule b64decode_token)
  finally show ?thesis by simp
qed

lemma le32_inj:
  assumes "le32 a = le32 b"
  shows "a = b"
proof (rule bit_word_eqI)
  fix n
  assume n: "n < LENGTH(32)"
  from assms have e:
    "(ucast a :: byte) = ucast b"
    "(ucast (drop_bit 8 a) :: byte) = ucast (drop_bit 8 b)"
    "(ucast (drop_bit 16 a) :: byte) = ucast (drop_bit 16 b)"
    "(ucast (drop_bit 24 a) :: byte) = ucast (drop_bit 24 b)"
    by (simp_all add: le32_def)
  have k: "bit a (k + m) = bit b (k + m)"
    if "(ucast (drop_bit k a) :: byte) = ucast (drop_bit k b)" "m < 8" for k m
  proof -
    have "bit (ucast (drop_bit k a) :: byte) m = bit (ucast (drop_bit k b) :: byte) m"
      using that(1) by simp
    then show ?thesis using that(2) by (simp add: bit_ucast_iff bit_drop_bit_eq)
  qed
  have z: "bit a m = bit b m" if "m < 8" for m
  proof -
    have "bit (ucast a :: byte) m = bit (ucast b :: byte) m" using e(1) by simp
    then show ?thesis using that by (simp add: bit_ucast_iff)
  qed
  from n consider "n < 8" | "8 \<le> n" "n < 16" | "16 \<le> n" "n < 24" | "24 \<le> n" "n < 32"
    by fastforce
  then show "bit a n = bit b n"
  proof cases
    case 1
    then show ?thesis by (rule z)
  next
    case 2
    then have "bit a (8 + (n - 8)) = bit b (8 + (n - 8))" by (intro k e) simp
    with 2 show ?thesis by simp
  next
    case 3
    then have "bit a (16 + (n - 16)) = bit b (16 + (n - 16))" by (intro k e) simp
    with 3 show ?thesis by simp
  next
    case 4
    then have "bit a (24 + (n - 24)) = bit b (24 + (n - 24))" by (intro k e) simp
    with 4 show ?thesis by simp
  qed
qed

lemma encode_event_mtime:
  "encode_event deflate t1 event = encode_event deflate t2 event \<longleftrightarrow> t1 = t2"
proof
  assume "encode_event deflate t1 event = encode_event deflate t2 event"
  then have "gzip_compress deflate t1 (json_bytes event) = gzip_compress deflate t2 (json_bytes event)"
    unfolding encode_event_eq by (intro url_safe_of_b64encode_inj) simp
  then have "le32 t1 = le32 t2"
    by (simp add: gzip_compress_def gzip_header_def le32_def)
  then show "t1 = t2" by (rule le32_inj)
qed simp


section \<open>Claims about the encoder\<close>

text \<open>
  C9. For every event, the length of the token returned by \<open>encode_event\<close> is never
  congruent to 1 modulo 4: the base64 text has a length that is a multiple of 4, the token
  is that text with its trailing padding stripped, at most two characters, and the
  padding formula of the decoder, \<open>(4 - len % 4) % 4\<close>, gives back exactly the number of
  characters stripped.
\<close>

theorem encode_event_length_mod4:
  "\<exists>b64 tok.
      decode_ascii (b64encode (gzip_compress deflate mtime (json_bytes event))) = Inr b64
    \<and> encode_event deflate mtime event = Inr tok
    \<and> tok = url_safe_of b64
    \<and> length b64 mod 4 = 0
    \<and> length tok \<le> length b64
    \<and> length b64 - length tok \<le> 2
    \<and> length tok mod 4 \<noteq> 1
    \<and> length tok + (4 - length tok mod 4) mod 4 = length b64"
proof -
  let ?gz = "gzip_compress deflate mtime (json_bytes event)"
  let ?b64 = "map unat (b64encode ?gz)"
  obtain body where body: "url_safe_of ?b64 = body" "length body = b64_body_len (length ?gz)"
    using url_safe_of_b64encode by blast
  have dec: "decode_ascii (b64encode ?gz) = Inr ?b64"
    by (simp add: decode_ascii_ok b64encode_ascii)
  have enc: "encode_event deflate mtime event = Inr body"
    by (simp add: encode_event_eq body(1))
  have len: "length ?b64 = length body + b64_pad (length ?gz)"
    by (simp add: b64encode_length body(2))
  have f1: "length ?b64 mod 4 = 0"
    by (simp add: b64encode_length_mod4)
  have f2: "length body \<le> length ?b64" "length ?b64 - length body \<le> 2"
    using len b64_pad_le2 [of "length ?gz"] by simp_all
  have f3: "length body mod 4 \<noteq> 1"
    using b64_body_len_mod4 [of "length ?gz"] by (simp add: body(2))
  have f4: "length body + (4 - length body mod 4) mod 4 = length ?b64"
    using len b64_pad_formula [of "length ?gz"] by (simp add: body(2))
  have "decode_ascii (b64encode ?gz) = Inr ?b64
    \<and> encode_event deflate mtime event = Inr body
    \<and> body = url_safe_of ?b64
    \<and> length ?b64 mod 4 = 0
    \<and> length body \<le> length ?b64
    \<and> length ?b64 - length body \<le> 2
    \<and> length body mod 4 \<noteq> 1
    \<and> length body + (4 - length body mod 4) mod 4 = length ?b64"
    using dec enc body(1) [symmetric] f1 f2 f3 f4 by (intro conjI)
  then show ?thesis by (intro exI)
qed

text \<open>
  C3. For every event, the token \<open>encode_event\<close> returns is non-empty and consists only of
  characters of \<open>[A-Za-z0-9_-]\<close>.
\<close>

theorem encode_event_alphabet:
  "\<exists>tok. encode_event deflate mtime event = Inr tok \<and> tok \<noteq> [] \<and> set tok \<subseteq> url_safe_alphabet"
proof -
  let ?gz = "gzip_compress deflate mtime (json_bytes event)"
  obtain body where b: "url_safe_of (map unat (b64encode ?gz)) = body"
    "set body \<subseteq> url_safe_alphabet" "length body = b64_body_len (length ?gz)"
    using url_safe_of_b64encode by blast
  have "18 \<le> length ?gz" by (simp add: gzip_compress_length)
  then have "0 < length ?gz" by linarith
  then have "0 < b64_body_len (length ?gz)" by (rule b64_body_len_pos)
  with b(3) have "body \<noteq> []" by auto
  with b show ?thesis by (simp add: encode_event_eq)
qed

section \<open>Claims about the builders\<close>

text \<open>
  C5. For a template of the table whose action templates carry an integer \<open>relativeTime\<close>
  and the \<open>action\<close> text (and neither \<open>id\<close> nor \<open>time\<close>), and a start offset for which every
  time lies within the range of \<open>datetime\<close> in a year of four digits, \<open>generate_event\<close>
  returns an event whose timeline follows the template's order: the i-th action (from 0) has
  the id \<open>action-(i+1)\<close>, the text of the i-th action template, and the time
  \<open>startTime + relativeTime\<close> seconds, written as \<open>YYYY-MM-DDTHH:MM:SSZ\<close>; nothing is
  sorted. \<open>generate_test_event\<close> does the same for its six fixed actions, the i-th at
  \<open>i * action_interval_seconds\<close> seconds after the start.
\<close>

theorem generate_event_assigns:
  "(template_ok events name
      \<and> times_ok now m (map relative_time (template_actions events name)) \<longrightarrow>
    (\<exists>ev. generate_event events now name m = Inr ev
     \<and> dict_lookup ev (ascii ''startTime'') = Some (PStr (strftime_iso (now + m * 60000000)))
     \<and> map (\<lambda>a. dict_lookup a (ascii ''id'')) (timeline_of ev)
         = map (\<lambda>i. Some (PStr (ascii ''action-'' @ int_repr (int i + 1))))
             [0..<length (template_actions events name)]
     \<and> map (\<lambda>a. dict_lookup a (ascii ''time'')) (timeline_of ev)
         = map (\<lambda>at. Some (PStr (strftime_iso (now + m * 60000000 + relative_time at * 1000000))))
             (template_actions events name)
     \<and> map (\<lambda>a. dict_lookup a (ascii ''action'')) (timeline_of ev)
         = map (\<lambda>at. dict_lookup at (ascii ''action'')) (template_actions events name)
     \<and> has_timestamp (ascii ''startTime'') ev
     \<and> list_all (has_timestamp (ascii ''time'')) (timeline_of ev)
     \<and> map action_seconds (timeline_of ev)
         = map (\<lambda>at. start_seconds ev + relative_time at) (template_actions events name)))
   \<and> (times_ok now m (map (\<lambda>i. int i * iv) [0..<length action_texts]) \<longrightarrow>
    (\<exists>ev. generate_test_event now m iv = Inr ev
     \<and> dict_lookup ev (ascii ''startTime'') = Some (PStr (strftime_iso (now + m * 60000000)))
     \<and> map (\<lambda>a. dict_lookup a (ascii ''id'')) (timeline_of ev)
         = map (\<lambda>i. Some (PStr (ascii ''action-'' @ int_repr (int i + 1))))
             [0..<length action_texts]
     \<and> map (\<lambda>a. dict_lookup a (ascii ''time'')) (timeline_of ev)
         = map (\<lambda>i. Some (PStr (strftime_iso (now + m * 60000000 + int i * iv * 1000000))))
             [0..<length action_texts]
     \<and> map (\<lambda>a. dict_lookup a (ascii ''action'')) (timeline_of ev)
         = map (\<lambda>ts. Some (PStr (fst ts))) action_texts
     \<and> has_timestamp (ascii ''startTime'') ev
     \<and> list_all (has_timestamp (ascii ''time'')) (timeline_of ev)
     \<and> map action_seconds (timeline_of ev)
         = map (\<lambda>i. start_seconds ev + int i * iv) [0..<length action_texts]))"
proof (intro conjI impI)
  assume "template_ok events name
      \<and> times_ok now m (map relative_time (template_actions events name))"
  then have tpl: "template_ok events name"
    and tok: "times_ok now m (map relative_time (template_actions events name))"
    by simp_all
  from tpl tok show "\<exists>ev. generate_event events now name m = Inr ev
     \<and> dict_lookup ev (ascii ''startTime'') = Some (PStr (strftime_iso (now + m * 60000000)))
     \<and> map (\<lambda>a. dict_lookup a (ascii ''id'')) (timeline_of ev)
         = map (\<lambda>i. Some (PStr (ascii ''action-'' @ int_repr (int i + 1))))
             [0..<length (template_actions events name)]
     \<and> map (\<lambda>a. dict_lookup a (ascii ''time'')) (timeline_of ev)
         = map (\<lambda>at. Some (PStr (strftime_iso (now + m * 60000000 + relative_time at * 1000000))))
             (template_actions events name)
     \<and> map (\<lambda>a. dict_lookup a (ascii ''action'')) (timeline_of ev)
         = map (\<lambda>at. dict_lookup at (ascii ''action'')) (template_actions events name)
     \<and> has_timestamp (ascii ''startTime'') ev
     \<and> list_all (has_timestamp (ascii ''time'')) (timeline_of ev)
     \<and> map action_seconds (timeline_of ev)
         = map (\<lambda>at. start_seconds ev + relative_time at) (template_actions events name)"
    by (rule generate_event_built)
next
  assume tok: "times_ok now m (map (\<lambda>i. int i * iv) [0..<length action_texts])"
  then show "\<exists>ev. generate_test_event now m iv = Inr ev
     \<and> dict_lookup ev (ascii ''startTime'') = Some (PStr (strftime_iso (now + m * 60000000)))
     \<and> map (\<lambda>a. dict_lookup a (ascii ''id'')) (timeline_of ev)
         = map (\<lambda>i. Some (PStr (ascii ''action-'' @ int_repr (int i + 1))))
             [0..<length action_texts]
     \<and> map (\<lambda>a. dict_lookup a (ascii ''time'')) (timeline_of ev)
         = map (\<lambda>i. Some (PStr (strftime_iso (now + m * 60000000 + int i * iv * 1000000))))
             [0..<length action_texts]
     \<and> map (\<lambda>a. dict_lookup a (ascii ''action'')) (timeline_of ev)
         = map (\<lambda>ts. Some (PStr (fst ts))) action_texts
     \<and> has_timestamp (ascii ''startTime'') ev
     \<and> list_all (has_timestamp (ascii ''time'')) (timeline_of ev)
     \<and> map action_seconds (timeline_of ev)
         = map (\<lambda>i. start_seconds ev + int i * iv) [0..<length action_texts]"
    by (rule generate_test_event_built)
qed

theorem generate_event_assigns_witness:
  "template_ok scenario_events (ascii ''scenario'')
   \<and> times_ok 63929392496789012 2 (map relative_time (template_actions scenario_events (ascii ''scenario'')))
   \<and> (\<exists>ev. generate_event scenario_events 63929392496789012 (ascii ''scenario'') 2 = Inr ev
        \<and> dict_lookup ev (ascii ''startTime'') = Some (PStr (ascii ''2026-11-04T12:36:56Z''))
        \<and> map (\<lambda>a. dict_lookup a (ascii ''id'')) (timeline_of ev)
            = [Some (PStr (ascii ''action-1'')), Some (PStr (ascii ''action-2''))]
        \<and> map (\<lambda>a. dict_lookup a (ascii ''time'')) (timeline_of ev)
            = [Some (PStr (ascii ''2026-11-04T12:36:56Z'')), Some (PStr (ascii ''2026-11-04T12:37:16Z''))]
        \<and> map (\<lambda>a. dict_lookup a (ascii ''action'')) (timeline_of ev)
            = [Some (PStr (ascii ''A'')), Some (PStr (ascii ''B''))]
        \<and> map action_seconds (timeline_of ev) = [start_seconds ev + 0, start_seconds ev + 20])
   \<and> times_ok 63929392496789012 2 (map (\<lambda>i. int i * 15) [0..<length action_texts])
   \<and> (\<exists>ev. generate_test_event 63929392496789012 2 15 = Inr ev
        \<and> map (\<lambda>a. dict_lookup a (ascii ''id'')) (timeline_of ev)
            = map (\<lambda>s. Some (PStr (ascii s)))
                [''action-1'', ''action-2'', ''action-3'', ''action-4'', ''action-5'', ''action-6'']
        \<and> map (\<lambda>a. dict_lookup a (ascii ''time'')) (timeline_of ev)
            = map (\<lambda>s. Some (PStr (ascii s)))
                [''2026-11-04T12:36:56Z'', ''2026-11-04T12:37:11Z'', ''2026-11-04T12:37:26Z'',
                 ''2026-11-04T12:37:41Z'', ''2026-11-04T12:37:56Z'', ''2026-11-04T12:38:11Z''])"
proof -
  have h1: "template_ok scenario_events (ascii ''scenario'')" by code_simp
  have h2: "times_ok 63929392496789012 2
      (map relative_time (template_actions scenario_events (ascii ''scenario'')))" by code_simp
  have h3: "times_ok 63929392496789012 2 (map (\<lambda>i. int i * 15) [0..<length action_texts])"
    by code_simp
  have ats: "template_actions scenario_events (ascii ''scenario'') =
     [PDict [(ascii ''relativeTime'', PInt 0), (ascii ''action'', PStr (ascii ''A'')),
                     (ascii ''style'', PStr (ascii ''normal''))],
      PDict [(ascii ''relativeTime'', PInt 20), (ascii ''action'', PStr (ascii ''B'')),
                     (ascii ''style'', PStr (ascii ''alert''))]]"
    by (simp add: template_actions_def scenario_events_def)
  have e1: "strftime_iso (63929392496789012 + 2 * 60000000) = ascii ''2026-11-04T12:36:56Z''"
    by code_simp
  have e2: "strftime_iso (63929392496789012 + 2 * 60000000 + 20 * 1000000) = ascii ''2026-11-04T12:37:16Z''"
    by code_simp
  have e3: "ascii ''action-'' @ int_repr (int 0 + 1) = ascii ''action-1''"
    "ascii ''action-'' @ int_repr (int 1 + 1) = ascii ''action-2''"
    by code_simp+
  have e4: "map (\<lambda>i. Some (PStr (ascii ''action-'' @ int_repr (int i + 1)))) [0..<length action_texts]
      = map (\<lambda>s. Some (PStr (ascii s)))
                [''action-1'', ''action-2'', ''action-3'', ''action-4'', ''action-5'', ''action-6'']"
    by code_simp
  have e5: "map (\<lambda>i. Some (PStr (strftime_iso (63929392496789012 + 2 * 60000000 + int i * 15 * 1000000))))
             [0..<length action_texts]
      = map (\<lambda>s. Some (PStr (ascii s)))
                [''2026-11-04T12:36:56Z'', ''2026-11-04T12:37:11Z'', ''2026-11-04T12:37:26Z'',
                 ''2026-11-04T12:37:41Z'', ''2026-11-04T12:37:56Z'', ''2026-11-04T12:38:11Z'']"
    by code_simp
  note t = generate_event_assigns [of scenario_events "ascii ''scenario''" 63929392496789012 2 15]
  from t [THEN conjunct1, THEN mp, OF conjI [OF h1 h2]] obtain ev where
    ev: "generate_event scenario_events 63929392496789012 (ascii ''scenario'') 2 = Inr ev"
      "dict_lookup ev (ascii ''startTime'') = Some (PStr (strftime_iso (63929392496789012 + 2 * 60000000)))"
      "map (\<lambda>a. dict_lookup a (ascii ''id'')) (timeline_of ev)
         = map (\<lambda>i. Some (PStr (ascii ''action-'' @ int_repr (int i + 1))))
             [0..<length (template_actions scenario_events (ascii ''scenario''))]"
      "map (\<lambda>a. dict_lookup a (ascii ''time'')) (timeline_of ev)
         = map (\<lambda>at. Some (PStr (strftime_iso (63929392496789012 + 2 * 60000000 + relative_time at * 1000000))))
             (template_actions scenario_events (ascii ''scenario''))"
      "map (\<lambda>a. dict_lookup a (ascii ''action'')) (timeline_of ev)
         = map (\<lambda>at. dict_lookup at (ascii ''action'')) (template_actions scenario_events (ascii ''scenario''))"
      "map action_seconds (timeline_of ev)
         = map (\<lambda>at. start_seconds ev + relative_time at) (template_actions scenario_events (ascii ''scenario''))"
    by (elim exE conjE) (rule that; assumption)
  have u: "[0..<length (template_actions scenario_events (ascii ''scenario''))] = [0, 1]"
    unfolding ats by (simp add: upt_rec)
  have a1: "map (\<lambda>a. dict_lookup a (ascii ''id'')) (timeline_of ev)
            = [Some (PStr (ascii ''action-1'')), Some (PStr (ascii ''action-2''))]"
    using ev(3) unfolding u using e3 by simp
  have a2: "map (\<lambda>a. dict_lookup a (ascii ''time'')) (timeline_of ev)
            = [Some (PStr (ascii ''2026-11-04T12:36:56Z'')), Some (PStr (ascii ''2026-11-04T12:37:16Z''))]"
    using ev(4) unfolding ats using e1 e2 by simp
  have a3: "map (\<lambda>a. dict_lookup a (ascii ''action'')) (timeline_of ev)
            = [Some (PStr (ascii ''A'')), Some (PStr (ascii ''B''))]"
    using ev(5) unfolding ats by simp
  have a4: "map action_seconds (timeline_of ev) = [start_seconds ev + 0, start_seconds ev + 20]"
    using ev(6) unfolding ats by simp
  have c1: "\<exists>ev. generate_event scenario_events 63929392496789012 (ascii ''scenario'') 2 = Inr ev
        \<and> dict_lookup ev (ascii ''startTime'') = Some (PStr (ascii ''2026-11-04T12:36:56Z''))
        \<and> map (\<lambda>a. dict_lookup a (ascii ''id'')) (timeline_of ev)
            = [Some (PStr (ascii ''action-1'')), Some (PStr (ascii ''action-2''))]
        \<and> map (\<lambda>a. dict_lookup a (ascii ''time'')) (timeline_of ev)
            = [Some (PStr (ascii ''2026-11-04T12:36:56Z'')), Some (PStr (ascii ''2026-11-04T12:37:16Z''))]
        \<and> map (\<lambda>a. dict_lookup a (ascii ''action'')) (timeline_of ev)
            = [Some (PStr (ascii ''A'')), Some (PStr (ascii ''B''))]
        \<and> map action_seconds (timeline_of ev) = [start_seconds ev + 0, start_seconds ev + 20]"
    using ev(1) ev(2) [unfolded e1] a1 a2 a3 a4 by (intro exI [of _ ev] conjI)
  from t [THEN conjunct2, THEN mp, OF h3] obtain ev' where
    ev': "generate_test_event 63929392496789012 2 15 = Inr ev'"
      "map (\<lambda>a. dict_lookup a (ascii ''id'')) (timeline_of ev')
         = map (\<lambda>i. Some (PStr (ascii ''action-'' @ int_repr (int i + 1))))
             [0..<length action_texts]"
      "map (\<lambda>a. dict_lookup a (ascii ''time'')) (timeline_of ev')
         = map (\<lambda>i. Some (PStr (strftime_iso (63929392496789012 + 2 * 60000000 + int i * 15 * 1000000))))
             [0..<length action_texts]"
    by (elim exE conjE) (rule that; assumption)
  have c2: "\<exists>ev. generate_test_event 63929392496789012 2 15 = Inr ev
        \<and> map (\<lambda>a. dict_lookup a (ascii ''id'')) (timeline_of ev)
            = map (\<lambda>s. Some (PStr (ascii s)))
                [''action-1'', ''action-2'', ''action-3'', ''action-4'', ''action-5'', ''action-6'']
        \<and> map (\<lambda>a. dict_lookup a (ascii ''time'')) (timeline_of ev)
            = map (\<lambda>s. Some (PStr (ascii s)))
                [''2026-11-04T12:36:56Z'', ''2026-11-04T12:37:11Z'', ''2026-11-04T12:37:26Z'',
                 ''2026-11-04T12:37:41Z'', ''2026-11-04T12:37:56Z'', ''2026-11-04T12:38:11Z'']"
    using ev'(1) ev'(2) [unfolded e4] ev'(3) [unfolded e5] by (intro exI [of _ ev'] conjI)
  from h1 h2 c1 h3 c2 show ?thesis by (intro conjI)
qed



text \<open>
  C10. Whenever \<open>generate_event\<close> returns an event, each action of its timeline holds under
  the key \<open>relativeTime\<close> the value of its action template (the templates being Python dicts,
  with distinct keys), and the member \<open>"relativeTime":value\<close> is part of the compact JSON text
  that \<open>encode_event\<close> compresses; the same holds for \<open>generate_pantheon_event\<close>, whose
  actions keep the relative times 0, 20, 40, 60 and 80. Nothing strips the key before
  transport.
\<close>

theorem builders_keep_relative_time:
  "(generate_event events now name m = Inr ev
      \<and> list_all dict_keys_distinct (template_actions events name) \<longrightarrow>
      map (\<lambda>a. dict_lookup a (ascii ''relativeTime'')) (timeline_of ev)
        = map (\<lambda>at. dict_lookup at (ascii ''relativeTime'')) (template_actions events name)
      \<and> list_all (\<lambda>a. dict_lookup a (ascii ''relativeTime'') \<noteq> None) (timeline_of ev)
      \<and> list_all (carries_relative_time ev) (timeline_of ev))
   \<and> (generate_pantheon_event now m = Inr pev \<longrightarrow>
      map (\<lambda>a. dict_lookup a (ascii ''relativeTime'')) (timeline_of pev)
        = map (\<lambda>r. Some (PInt r)) [0, 20, 40, 60, 80]
      \<and> list_all (carries_relative_time pev) (timeline_of pev))"
proof (intro conjI impI)
  assume a: "generate_event events now name m = Inr ev
      \<and> list_all dict_keys_distinct (template_actions events name)"
  note r = generate_event_relative_times [OF a [THEN conjunct1] a [THEN conjunct2]]
  show "map (\<lambda>a. dict_lookup a (ascii ''relativeTime'')) (timeline_of ev)
        = map (\<lambda>at. dict_lookup at (ascii ''relativeTime'')) (template_actions events name)"
    by (rule r(2))
  show "list_all (\<lambda>a. dict_lookup a (ascii ''relativeTime'') \<noteq> None) (timeline_of ev)"
    using r by (rule keeps_relative_time(1))
  show "list_all (carries_relative_time ev) (timeline_of ev)"
    using r by (rule keeps_relative_time(2))
next
  assume p: "generate_pantheon_event now m = Inr pev"
  have m: "map (\<lambda>a. dict_lookup a (ascii ''relativeTime'')) (timeline_of pev)
        = map (\<lambda>a. dict_lookup a (ascii ''relativeTime'')) pantheon_actions"
    using p by (rule generate_pantheon_event_Inr(5))
  then show "map (\<lambda>a. dict_lookup a (ascii ''relativeTime'')) (timeline_of pev)
        = map (\<lambda>r. Some (PInt r)) [0, 20, 40, 60, 80]"
    by (simp only: pantheon_relative_time_fields)
  have n: "list_all (\<lambda>at. dict_lookup at (ascii ''relativeTime'') \<noteq> None) pantheon_actions"
    by (simp add: pantheon_actions_def)
  show "list_all (carries_relative_time pev) (timeline_of pev)"
    using generate_pantheon_event_timeline [OF p] m n by (rule keeps_relative_time(2))
qed

theorem builders_keep_relative_time_witness:
  "list_all dict_keys_distinct (template_actions scenario_events (ascii ''scenario''))
   \<and> (\<exists>ev. generate_event scenario_events 63929392496789012 (ascii ''scenario'') 2 = Inr ev
         \<and> map (\<lambda>a. dict_lookup a (ascii ''relativeTime'')) (timeline_of ev)
             = [Some (PInt 0), Some (PInt 20)]
         \<and> list_all (carries_relative_time ev) (timeline_of ev))
   \<and> (\<exists>pev. generate_pantheon_event 63929392496789012 2 = Inr pev
         \<and> map (\<lambda>a. dict_lookup a (ascii ''relativeTime'')) (timeline_of pev)
             = map (\<lambda>r. Some (PInt r)) [0, 20, 40, 60, 80]
         \<and> list_all (carries_relative_time pev) (timeline_of pev))"
proof -
  have h1: "template_ok scenario_events (ascii ''scenario'')" by code_simp
  have h2: "offsets_in_range 63929392496789012 2
      (map relative_time (template_actions scenario_events (ascii ''scenario'')))" by code_simp
  have h3: "offsets_in_range 63929392496789012 2 (map relative_time pantheon_actions)"
    unfolding pantheon_relative_times by code_simp
  have d: "list_all dict_keys_distinct (template_actions scenario_events (ascii ''scenario''))"
    by code_simp
  have e: "map (\<lambda>at. dict_lookup at (ascii ''relativeTime'')) (template_actions scenario_events (ascii ''scenario''))
      = [Some (PInt 0), Some (PInt 20)]"
    by code_simp
  from generate_event_ok [OF h1 h2] obtain ev where
    ev: "generate_event scenario_events 63929392496789012 (ascii ''scenario'') 2 = Inr ev"
    by (elim exE conjE) (rule that)
  from generate_pantheon_event_ok [OF h3 pantheon_has_relative_time] obtain pev where
    pev: "generate_pantheon_event 63929392496789012 2 = Inr pev" by (elim exE) (rule that)
  note t = builders_keep_relative_time [of scenario_events 63929392496789012 "ascii ''scenario''" 2 ev pev]
  note t1 = t [THEN conjunct1, THEN mp, OF conjI [OF ev d]]
  note t2 = t [THEN conjunct2, THEN mp, OF pev]
  have c1: "\<exists>ev. generate_event scenario_events 63929392496789012 (ascii ''scenario'') 2 = Inr ev
         \<and> map (\<lambda>a. dict_lookup a (ascii ''relativeTime'')) (timeline_of ev)
             = [Some (PInt 0), Some (PInt 20)]
         \<and> list_all (carries_relative_time ev) (timeline_of ev)"
    using ev t1 [THEN conjunct1, unfolded e] t1 [THEN conjunct2, THEN conjunct2]
    by (intro exI [of _ ev] conjI)
  have c2: "\<exists>pev. generate_pantheon_event 63929392496789012 2 = Inr pev
         \<and> map (\<lambda>a. dict_lookup a (ascii ''relativeTime'')) (timeline_of pev)
             = map (\<lambda>r. Some (PInt r)) [0, 20, 40, 60, 80]
         \<and> list_all (carries_relative_time pev) (timeline_of pev)"
    using pev t2 [THEN conjunct1] t2 [THEN conjunct2] by (intro exI [of _ pev] conjI)
  from d c1 c2 show ?thesis by (intro conjI)
qed

text \<open>
  C7. The claim that a negative \<open>relativeTime\<close> or a duplicate action id makes building fail
  with a \<open>ValidationError\<close> does not hold: the builders validate nothing. At the table
  \<open>negative_events\<close>, whose second action has \<open>relativeTime = -30\<close>, \<open>generate_event\<close>
  returns an event whose second action is timed 30 seconds before \<open>startTime\<close>; at
  \<open>duplicate_events\<close>, whose action templates carry the same \<open>id\<close>, it returns an event with
  that id twice.
\<close>

theorem generate_event_accepts_malformed:
  "generate_event negative_events 63929392496789012 (ascii ''negative'') 2 =
     Inr (PDict
       [(ascii ''title'', PStr (ascii ''Scenario'')),
        (ascii ''description'', PStr []),
        (ascii ''startTime'', PStr (ascii ''2026-11-04T12:36:56Z'')),
        (ascii ''timezone'', PStr (ascii ''America/Denver'')),
        (ascii ''timeline'', PList
           [PDict [(ascii ''id'', PStr (ascii ''action-1'')),
                   (ascii ''time'', PStr (ascii ''2026-11-04T12:36:56Z'')),
                   (ascii ''action'', PStr (ascii ''A'')),
                   (ascii ''audioAnnounce'', PBool True),
                   (ascii ''announceActionName'', PBool True),
                   (ascii ''relativeTime'', PInt 0),
                   (ascii ''style'', PStr (ascii ''normal''))],
            PDict [(ascii ''id'', PStr (ascii ''action-2'')),
                   (ascii ''time'', PStr (ascii ''2026-11-04T12:36:26Z'')),
                   (ascii ''action'', PStr (ascii ''B'')),
                   (ascii ''audioAnnounce'', PBool True),
                   (ascii ''announceActionName'', PBool True),
                   (ascii ''relativeTime'', PInt (- 30)),
                   (ascii ''style'', PStr (ascii ''alert''))]])])
   \<and> generate_event duplicate_events 63929392496789012 (ascii ''duplicate'') 2 =
     Inr (PDict
       [(ascii ''title'', PStr (ascii ''Scenario'')),
        (ascii ''description'', PStr []),
        (ascii ''startTime'', PStr (ascii ''2026-11-04T12:36:56Z'')),
        (ascii ''timezone'', PStr (ascii ''America/Denver'')),
        (ascii ''timeline'', PList
           [PDict [(ascii ''id'', PStr (ascii ''x'')),
                   (ascii ''time'', PStr (ascii ''2026-11-04T12:36:56Z'')),
                   (ascii ''action'', PStr (ascii ''A'')),
                   (ascii ''audioAnnounce'', PBool True),
                   (ascii ''announceActionName'', PBool True),
                   (ascii ''relativeTime'', PInt 0)],
            PDict [(ascii ''id'', PStr (ascii ''x'')),
                   (ascii ''time'', PStr (ascii ''2026-11-04T12:37:16Z'')),
                   (ascii ''action'', PStr (ascii ''B'')),
                   (ascii ''audioAnnounce'', PBool True),
                   (ascii ''announceActionName'', PBool True),
                   (ascii ''relativeTime'', PInt 20)]])])"
  by code_simp

text \<open>
  C7, as amended. For a template whose action templates carry an integer \<open>relativeTime\<close> of
  either sign and the \<open>action\<close> text (and neither \<open>id\<close> nor \<open>time\<close>), with every time within
  the range of \<open>datetime\<close> in a four-digit year, \<open>generate_event\<close> returns an event and no
  error: an action is timed before \<open>startTime\<close> exactly when its \<open>relativeTime\<close> is negative,
  and the ids, assigned by position, are pairwise distinct.
\<close>

theorem generate_event_no_validation:
  "template_ok events name
     \<and> times_ok now m (map relative_time (template_actions events name)) \<longrightarrow>
   (\<exists>ev. generate_event events now name m = Inr ev
      \<and> map (\<lambda>a. action_seconds a < start_seconds ev) (timeline_of ev)
          = map (\<lambda>at. relative_time at < 0) (template_actions events name)
      \<and> distinct (map (\<lambda>a. dict_lookup a (ascii ''id'')) (timeline_of ev)))"
proof
  assume a: "template_ok events name
     \<and> times_ok now m (map relative_time (template_actions events name))"
  from generate_event_built [OF a [THEN conjunct1] a [THEN conjunct2]] obtain ev where
    ev: "generate_event events now name m = Inr ev"
    and ids: "map (\<lambda>a. dict_lookup a (ascii ''id'')) (timeline_of ev)
         = map (\<lambda>i. Some (PStr (ascii ''action-'' @ int_repr (int i + 1))))
             [0..<length (template_actions events name)]"
    and sec: "map action_seconds (timeline_of ev)
         = map (\<lambda>at. start_seconds ev + relative_time at) (template_actions events name)"
    by (elim exE conjE) (rule that; assumption)
  have "distinct (map (\<lambda>a. dict_lookup a (ascii ''id'')) (timeline_of ev))"
    unfolding ids using distinct_action_ids [of "length (template_actions events name)"]
    by (simp add: action_id_def)
  with ev before_start_map [OF sec]
  show "\<exists>ev. generate_event events now name m = Inr ev
      \<and> map (\<lambda>a. action_seconds a < start_seconds ev) (timeline_of ev)
          = map (\<lambda>at. relative_time at < 0) (template_actions events name)
      \<and> distinct (map (\<lambda>a. dict_lookup a (ascii ''id'')) (timeline_of ev))"
    by (intro exI [of _ ev] conjI)
qed

theorem generate_event_no_validation_witness:
  "template_ok negative_events (ascii ''negative'')
   \<and> times_ok 63929392496789012 2 (map relative_time (template_actions negative_events (ascii ''negative'')))
   \<and> (\<exists>ev. generate_event negative_events 63929392496789012 (ascii ''negative'') 2 = Inr ev
      \<and> map (\<lambda>a. action_seconds a < start_seconds ev) (timeline_of ev) = [False, True]
      \<and> distinct (map (\<lambda>a. dict_lookup a (ascii ''id'')) (timeline_of ev)))"
proof -
  have h1: "template_ok negative_events (ascii ''negative'')" by code_simp
  have h2: "times_ok 63929392496789012 2
      (map relative_time (template_actions negative_events (ascii ''negative'')))" by code_simp
  have e: "map (\<lambda>at. relative_time at < 0) (template_actions negative_events (ascii ''negative''))
      = [False, True]" by code_simp
  from generate_event_no_validation [THEN mp, OF conjI [OF h1 h2]] obtain ev where
    ev: "generate_event negative_events 63929392496789012 (ascii ''negative'') 2 = Inr ev"
      "map (\<lambda>a. action_seconds a < start_seconds ev) (timeline_of ev)
          = map (\<lambda>at. relative_time at < 0) (template_actions negative_events (ascii ''negative''))"
      "distinct (map (\<lambda>a. dict_lookup a (ascii ''id'')) (timeline_of ev))"
    by (elim exE conjE) (rule that; assumption)
  have "\<exists>ev. generate_event negative_events 63929392496789012 (ascii ''negative'') 2 = Inr ev
      \<and> map (\<lambda>a. action_seconds a < start_seconds ev) (timeline_of ev) = [False, True]
      \<and> distinct (map (\<lambda>a. dict_lookup a (ascii ''id'')) (timeline_of ev))"
    using ev(1) ev(2) [unfolded e] ev(3) by (intro exI [of _ ev] conjI)
  with h1 h2 show ?thesis by (intro conjI)
qed

section \<open>Claims about the codec\<close>

text \<open>
  C2. The claim that two calls of \<open>encode_event\<close> on the same event, at any two times,
  return the same token does not hold. \<open>encode_event\<close> calls \<open>gzip.compress\<close> without
  \<open>mtime\<close>, so that bytes 4 to 7 of the compressed data are the clock second of the call.
  For the event \<open>empty_event\<close>, encoded in the seconds 1700000000 and 1700000001 after the
  epoch, the compressed data differ in byte 4, and so do the two tokens.
\<close>

theorem encode_event_clock_dependent:
  "take 8 (gzip_compress deflate_stored 1700000000 (json_bytes empty_event))
     = [0x1f, 0x8b, 8, 0, 0x00, 0xf1, 0x53, 0x65]
   \<and> take 8 (gzip_compress deflate_stored 1700000001 (json_bytes empty_event))
     = [0x1f, 0x8b, 8, 0, 0x01, 0xf1, 0x53, 0x65]
   \<and> encode_event deflate_stored 1700000000 empty_event
     \<noteq> encode_event deflate_stored 1700000001 empty_event"
proof -
  have "le32 1700000000 = [0x00, 0xf1, 0x53, 0x65]" "le32 1700000001 = [0x01, 0xf1, 0x53, 0x65]"
    by (simp_all add: le32_def)
  then have "take 8 (gzip_compress deflate_stored 1700000000 (json_bytes empty_event))
     = [0x1f, 0x8b, 8, 0, 0x00, 0xf1, 0x53, 0x65]"
    "take 8 (gzip_compress deflate_stored 1700000001 (json_bytes empty_event))
     = [0x1f, 0x8b, 8, 0, 0x01, 0xf1, 0x53, 0x65]"
    by (simp_all add: gzip_compress_def gzip_header_def)
  moreover have "encode_event deflate_stored 1700000000 empty_event
     \<noteq> encode_event deflate_stored 1700000001 empty_event"
    by (simp add: encode_event_mtime)
  ultimately show ?thesis by (intro conjI)
qed

text \<open>
  C2, as amended. \<open>encode_event\<close> is a function of the event and of the clock second at
  which it runs (as an unsigned 32-bit number): for every event and every deflate
  compressor, two calls return the same token exactly when they run in the same second.
\<close>

theorem encode_event_deterministic_per_second:
  "encode_event deflate t1 event = encode_event deflate t2 event \<longleftrightarrow> t1 = t2"
  by (rule encode_event_mtime)

end
